theory Spec2Isabelle
  imports Complex_Main "HOL-Library.AList"
begin

section \<open>JavaScript strings\<close>

text \<open>
  A JavaScript string is a sequence of UTF-16 code units; \<open>length\<close> counts code
  units, as \<^verbatim>\<open>String.prototype.length\<close> does. A code unit is a natural number
  below 65536. ASCII text is written as an Isabelle string and converted.
\<close>

type_synonym jsstring = "nat list"

definition of_ascii :: "string \<Rightarrow> jsstring" where
  "of_ascii s = map of_char s"

text \<open>The regular-expression class \<^verbatim>\<open>\s\<close>; \<^verbatim>\<open>trim\<close> strips the same set.\<close>

definition is_ws :: "nat \<Rightarrow> bool" where
  "is_ws c \<longleftrightarrow>
     (9 \<le> c \<and> c \<le> 13) \<or> c = 32 \<or> c = 160 \<or> c = 5760 \<or>
     (8192 \<le> c \<and> c \<le> 8202) \<or> c = 8232 \<or> c = 8233 \<or> c = 8239 \<or>
     c = 8287 \<or> c = 12288 \<or> c = 65279"

text \<open>Line terminators: what \<^verbatim>\<open>.\<close> does not match, and where \<^verbatim>\<open>^\<close> and \<^verbatim>\<open>$\<close>
  of a multi-line expression match.\<close>

definition is_lt :: "nat \<Rightarrow> bool" where
  "is_lt c \<longleftrightarrow> c = 10 \<or> c = 13 \<or> c = 8232 \<or> c = 8233"

text \<open>The class \<^verbatim>\<open>\w\<close> (no unicode flag): \<^verbatim>\<open>[A-Za-z0-9_]\<close>.\<close>

definition is_word :: "nat \<Rightarrow> bool" where
  "is_word c \<longleftrightarrow>
     (48 \<le> c \<and> c \<le> 57) \<or> (65 \<le> c \<and> c \<le> 90) \<or> c = 95 \<or> (97 \<le> c \<and> c \<le> 122)"

definition trimStart :: "jsstring \<Rightarrow> jsstring" where
  "trimStart s = dropWhile is_ws s"

definition trimEnd :: "jsstring \<Rightarrow> jsstring" where
  "trimEnd s = rev (dropWhile is_ws (rev s))"

definition trim :: "jsstring \<Rightarrow> jsstring" where
  "trim s = trimEnd (trimStart s)"

text \<open>
  \<^verbatim>\<open>String.prototype.toLowerCase\<close> on ASCII text. The Unicode case tables belong to
  the platform, so the functions below take the lower-casing function as a parameter
  \<open>lc\<close>; on a string of ASCII code units the platform's function is this one.
\<close>

definition asciiLower :: "jsstring \<Rightarrow> jsstring" where
  "asciiLower s = map (\<lambda>c. if 65 \<le> c \<and> c \<le> 90 then c + 32 else c) s"

text \<open>The decimal numeral of a non-negative integer, as a template literal prints it.\<close>

fun dec :: "nat \<Rightarrow> jsstring" where
  "dec n = (if n < 10 then [48 + n] else dec (n div 10) @ [48 + n mod 10])"

declare dec.simps [simp del]

section \<open>Regular expressions of the Markdown pipeline\<close>

text \<open>
  \<^verbatim>\<open>s.replace(re, r)\<close> with a global expression that matches no empty string: scan
  from the left; where the expression matches at the current position, emit the
  replacement and go on behind the match; otherwise emit the code unit and move on by
  one. The matcher \<open>m\<close> is given the rest of the string and returns the length of the
  match with the replacement text. The counter says how many code units of the last
  match are still to be skipped.
\<close>

fun replace_from :: "(jsstring \<Rightarrow> (nat \<times> jsstring) option) \<Rightarrow> nat \<Rightarrow> jsstring \<Rightarrow> jsstring" where
  "replace_from m skip [] = []"
| "replace_from m skip (c # cs) =
     (if 0 < skip then replace_from m (skip - 1) cs
      else (case m (c # cs) of
              None \<Rightarrow> c # replace_from m 0 cs
            | Some (n, r) \<Rightarrow> r @ replace_from m (n - 1) cs))"

definition replaceAll :: "(jsstring \<Rightarrow> (nat \<times> jsstring) option) \<Rightarrow> jsstring \<Rightarrow> jsstring" where
  "replaceAll m s = replace_from m 0 s"

text \<open>A literal prefix: the rest behind it, when the string starts with it.\<close>

fun lit :: "jsstring \<Rightarrow> jsstring \<Rightarrow> jsstring option" where
  "lit [] s = Some s"
| "lit (p # ps) [] = None"
| "lit (p # ps) (c # cs) = (if p = c then lit ps cs else None)"

text \<open>
  The lazy group \<^verbatim>\<open>(.+?)\<close> followed by the continuation \<open>k\<close>: the shortest non-empty
  run of code units other than line terminators after which \<open>k\<close> matches. The result
  is the group with what \<open>k\<close> returns. The accumulator holds the group so far, reversed.
\<close>

fun lazy_plus :: "(jsstring \<Rightarrow> 'a option) \<Rightarrow> jsstring \<Rightarrow> jsstring \<Rightarrow> (jsstring \<times> 'a) option" where
  "lazy_plus k acc [] = None"
| "lazy_plus k acc (c # cs) =
     (if is_lt c then None
      else (case k cs of
              Some r \<Rightarrow> Some (rev (c # acc), r)
            | None \<Rightarrow> lazy_plus k (c # acc) cs))"

text \<open>A delimited span \<^verbatim>\<open>D(.+?)D\<close> replaced by \<^verbatim>\<open>$1\<close>, for a literal delimiter \<open>d\<close>.\<close>

definition span_match :: "jsstring \<Rightarrow> jsstring \<Rightarrow> (nat \<times> jsstring) option" where
  "span_match d s =
     (case lit d s of
        None \<Rightarrow> None
      | Some rest \<Rightarrow>
          (case lazy_plus (lit d) [] rest of
             None \<Rightarrow> None
           | Some (g, _) \<Rightarrow> Some (length d + length g + length d, g)))"

text \<open>\<^verbatim>\<open>/\*\*(.+?)\*\*/g\<close>, \<^verbatim>\<open>/\*(.+?)\*/g\<close> and \<^verbatim>\<open>/`(.+?)`/g\<close>, each replaced by \<^verbatim>\<open>$1\<close>.\<close>

definition bold_match :: "jsstring \<Rightarrow> (nat \<times> jsstring) option" where
  "bold_match = span_match [42, 42]"

definition italic_match :: "jsstring \<Rightarrow> (nat \<times> jsstring) option" where
  "italic_match = span_match [42]"

definition code_match :: "jsstring \<Rightarrow> (nat \<times> jsstring) option" where
  "code_match = span_match [96]"

text \<open>\<^verbatim>\<open>/\[(.+?)\]\(.+?\)/g\<close> replaced by \<^verbatim>\<open>$1\<close>: the link text is kept.\<close>

definition link_match :: "jsstring \<Rightarrow> (nat \<times> jsstring) option" where
  "link_match s =
     (case lit [91] s of
        None \<Rightarrow> None
      | Some rest \<Rightarrow>
          (case lazy_plus
                  (\<lambda>r. case lit [93, 40] r of
                          None \<Rightarrow> None
                        | Some r' \<Rightarrow> lazy_plus (lit [41]) [] r')
                  [] rest of
             None \<Rightarrow> None
           | Some (g, (u, _)) \<Rightarrow> Some (1 + length g + 2 + length u + 1, g)))"

text \<open>
  \<^verbatim>\<open>/<[^>]*>/g\<close> replaced by the empty string. The negated class also matches line
  terminators, so the tag runs to the first \<^verbatim>\<open>>\<close> wherever it is.
\<close>

definition tag_match :: "jsstring \<Rightarrow> (nat \<times> jsstring) option" where
  "tag_match s =
     (case s of
        [] \<Rightarrow> None
      | c # cs \<Rightarrow>
          (if c = 60 \<and> 62 \<in> set cs
           then Some (1 + length (takeWhile (\<lambda>x. x \<noteq> 62) cs) + 1, [])
           else None))"

text \<open>A greedy run \<^verbatim>\<open>C+\<close> of a character class, replaced by a fixed string.\<close>

definition run_match :: "(nat \<Rightarrow> bool) \<Rightarrow> jsstring \<Rightarrow> jsstring \<Rightarrow> (nat \<times> jsstring) option" where
  "run_match P r s =
     (case takeWhile P s of
        [] \<Rightarrow> None
      | x # xs \<Rightarrow> Some (length (x # xs), r))"

text \<open>\<^verbatim>\<open>/#+\s/g\<close> replaced by the empty string: hashes, then one white-space code unit.\<close>

definition hashes_match :: "jsstring \<Rightarrow> (nat \<times> jsstring) option" where
  "hashes_match s =
     (let h = takeWhile (\<lambda>c. c = 35) s in
      case drop (length h) s of
        [] \<Rightarrow> None
      | c # _ \<Rightarrow> if h \<noteq> [] \<and> is_ws c then Some (length h + 1, []) else None)"

text \<open>
  \<^verbatim>\<open>/^-|-$/g\<close> replaced by the empty string (no multi-line flag): a hyphen at the
  very start and a hyphen at the very end are removed.
\<close>

definition strip_edge_hyphens :: "jsstring \<Rightarrow> jsstring" where
  "strip_edge_hyphens s =
     (let s1 = (case s of [] \<Rightarrow> [] | c # cs \<Rightarrow> if c = 45 then cs else c # cs)
      in if s1 \<noteq> [] \<and> last s1 = 45 then butlast s1 else s1)"

section \<open>Heading slugs\<close>

text \<open>
  The character class kept by \<^verbatim>\<open>/[^\w\s\u3040-\u309F\u30A0-\u30FF\u4E00-\u9FAF-]/g\<close>
  (Hiragana, Katakana, CJK ideographs).
\<close>

definition slug_keep :: "nat \<Rightarrow> bool" where
  "slug_keep c \<longleftrightarrow>
     is_word c \<or> is_ws c \<or> (12352 \<le> c \<and> c \<le> 12447) \<or> (12448 \<le> c \<and> c \<le> 12543) \<or>
     (19968 \<le> c \<and> c \<le> 40879) \<or> c = 45"

text \<open>The chain of string operations that computes \<^verbatim>\<open>base\<close> in \<^verbatim>\<open>createSlugFactory\<close>.\<close>

definition slug_base :: "(jsstring \<Rightarrow> jsstring) \<Rightarrow> jsstring \<Rightarrow> jsstring" where
  "slug_base lc txt =
     take 50
       (strip_edge_hyphens
         (replaceAll (run_match (\<lambda>c. c = 45) [45])
           (replaceAll (run_match is_ws [45])
             (filter slug_keep (lc (trim txt))))))"

text \<open>\<^verbatim>\<open>const slug = base || 'section'\<close>.\<close>

definition slug_of :: "(jsstring \<Rightarrow> jsstring) \<Rightarrow> jsstring \<Rightarrow> jsstring" where
  "slug_of lc txt = (let base = slug_base lc txt in if base = [] then of_ascii ''section'' else base)"

text \<open>
  The closure returned by \<^verbatim>\<open>createSlugFactory\<close>, with its registry \<^verbatim>\<open>seen\<close> passed
  in and returned. \<^verbatim>\<open>createSlugFactory()\<close> itself starts from the empty registry.
\<close>

type_synonym registry = "jsstring \<rightharpoonup> nat"

definition slugify :: "(jsstring \<Rightarrow> jsstring) \<Rightarrow> registry \<Rightarrow> jsstring \<Rightarrow> jsstring \<times> registry" where
  "slugify lc seen txt =
     (let slug = slug_of lc txt;
          count = (case seen slug of None \<Rightarrow> 0 | Some n \<Rightarrow> n);
          seen' = seen(slug \<mapsto> count + 1)
      in (if count = 0 then slug else slug @ [45] @ dec (count + 1), seen'))"

section \<open>Heading extraction\<close>

text \<open>The interface \<^verbatim>\<open>Heading\<close>, with fields \<^verbatim>\<open>level\<close>, \<^verbatim>\<open>text\<close> and \<^verbatim>\<open>id\<close>.\<close>

record Heading =
  h_level :: nat
  h_text :: jsstring
  h_id :: jsstring

text \<open>
  \<^verbatim>\<open>/^(#{1,3})\s+(.+)$/gm\<close> tried at a line start, following the matcher's
  backtracking. \<open>heading_ws j rest\<close>: the greedy \<^verbatim>\<open>\s+\<close> has \<open>j\<close> code units left to
  try; \<^verbatim>\<open>(.+)\<close> needs a code unit that is no line terminator behind them, then runs to
  the end of its line, where \<^verbatim>\<open>$\<close> matches. The result is the number of white-space
  code units consumed and the second group.
\<close>

primrec heading_ws :: "nat \<Rightarrow> jsstring \<Rightarrow> (nat \<times> jsstring) option" where
  "heading_ws 0 rest = None"
| "heading_ws (Suc j) rest =
     (case drop (Suc j) rest of
        [] \<Rightarrow> heading_ws j rest
      | c # cs \<Rightarrow>
          if is_lt c then heading_ws j rest
          else Some (Suc j, takeWhile (\<lambda>x. \<not> is_lt x) (c # cs)))"

text \<open>\<open>heading_hashes k s\<close>: the greedy \<^verbatim>\<open>#{1,3}\<close> has \<open>k\<close> hashes left to try.\<close>

primrec heading_hashes :: "nat \<Rightarrow> jsstring \<Rightarrow> (nat \<times> nat \<times> jsstring) option" where
  "heading_hashes 0 s = None"
| "heading_hashes (Suc k) s =
     (let rest = drop (Suc k) s in
      case heading_ws (length (takeWhile is_ws rest)) rest of
        Some (j, g) \<Rightarrow> Some (Suc k, j, g)
      | None \<Rightarrow> heading_hashes k s)"

text \<open>The match at a line start: the level, the second group and the length of the match.\<close>

definition heading_at :: "jsstring \<Rightarrow> (nat \<times> jsstring \<times> nat) option" where
  "heading_at s =
     (case heading_hashes (min 3 (length (takeWhile (\<lambda>c. c = 35) s))) s of
        None \<Rightarrow> None
      | Some (k, j, g) \<Rightarrow> Some (k, g, k + j + length g))"

text \<open>
  The loop \<^verbatim>\<open>while ((match = headingRegex.exec(markdown)) !== null)\<close>: all matches from
  left to right. \<open>bol\<close> says that the current position is the start of the input or
  follows a line terminator; the counter skips the rest of the last match.
\<close>

fun exec_all :: "bool \<Rightarrow> nat \<Rightarrow> jsstring \<Rightarrow> (nat \<times> jsstring) list" where
  "exec_all bol skip [] = []"
| "exec_all bol skip (c # cs) =
     (if 0 < skip then exec_all (is_lt c) (skip - 1) cs
      else if bol then
        (case heading_at (c # cs) of
           Some (k, g, n) \<Rightarrow> (k, g) # exec_all (is_lt c) (n - 1) cs
         | None \<Rightarrow> exec_all (is_lt c) 0 cs)
      else exec_all (is_lt c) 0 cs)"

text \<open>The display text of a heading: the chain of replacements on \<^verbatim>\<open>rawText\<close>.\<close>

definition heading_text :: "jsstring \<Rightarrow> jsstring" where
  "heading_text g =
     trim
       (replaceAll tag_match
         (replaceAll italic_match
           (replaceAll bold_match
             (replaceAll code_match
               (replaceAll link_match (trim g))))))"

text \<open>The body of the loop, with the registry of the slug factory threaded through.\<close>

fun push_headings :: "(jsstring \<Rightarrow> jsstring) \<Rightarrow> registry \<Rightarrow> (nat \<times> jsstring) list \<Rightarrow> Heading list" where
  "push_headings lc seen [] = []"
| "push_headings lc seen ((k, g) # ms) =
     (let t = heading_text g;
          (i, seen') = slugify lc seen t
      in \<lparr>h_level = k, h_text = t, h_id = i\<rparr> # push_headings lc seen' ms)"

definition extractHeadings :: "(jsstring \<Rightarrow> jsstring) \<Rightarrow> jsstring \<Rightarrow> Heading list" where
  "extractHeadings lc markdown =
     (if markdown = [] then [] else push_headings lc Map.empty (exec_all True 0 markdown))"

section \<open>The renderer and \<^verbatim>\<open>parseMarkdown\<close>\<close>

text \<open>
  The \<^verbatim>\<open>heading\<close> function installed by \<^verbatim>\<open>createRenderer\<close>, in its token form:
  \<^verbatim>\<open>depth\<close> and \<^verbatim>\<open>text\<close> may be missing from the token. The renderer holds one slug
  factory, so its registry is passed in and returned. The legacy form
  \<^verbatim>\<open>heading(text, level)\<close> computes the same from its two arguments.
\<close>

definition renderer_heading ::
  "(jsstring \<Rightarrow> jsstring) \<Rightarrow> registry \<Rightarrow> nat option \<Rightarrow> jsstring option \<Rightarrow> jsstring \<times> registry" where
  "renderer_heading lc seen depth txt =
     (let lvl = dec (case depth of None \<Rightarrow> 2 | Some d \<Rightarrow> d);
          t = (case txt of None \<Rightarrow> [] | Some x \<Rightarrow> x);
          (i, seen') = slugify lc seen t
      in (of_ascii ''<h'' @ lvl @ of_ascii '' id='' @ [34] @ i @ [34] @ of_ascii ''>'' @ t @
          of_ascii ''</h'' @ lvl @ of_ascii ''>'', seen'))"

text \<open>\<^verbatim>\<open>try { ... } catch (error) { ... }\<close> over computations that return or throw.\<close>

definition try_catch :: "'e + 'a \<Rightarrow> ('e \<Rightarrow> 'e + 'a) \<Rightarrow> 'e + 'a" where
  "try_catch body handler = (case body of Inl e \<Rightarrow> handler e | Inr v \<Rightarrow> Inr v)"

text \<open>
  \<^verbatim>\<open>parseMarkdown\<close>. The Markdown engine \<^verbatim>\<open>marked\<close> is a library: \<open>render\<close> stands
  for \<^verbatim>\<open>marked.parse\<close> with the options set at module load, and returns the HTML or
  throws.
\<close>

definition parseMarkdown :: "(jsstring \<Rightarrow> 'e + jsstring) \<Rightarrow> jsstring \<Rightarrow> 'e + jsstring" where
  "parseMarkdown render markdown =
     (if markdown = [] then Inr []
      else try_catch (render markdown) (\<lambda>error. Inr markdown))"

section \<open>Reading time\<close>

text \<open>
  \<^verbatim>\<open>s.split(re)\<close> for an expression that matches no empty string: the pieces between
  the matches, from left to right; the empty string gives one empty piece. The
  accumulator holds the current piece, reversed.
\<close>

fun split_from :: "(jsstring \<Rightarrow> (nat \<times> jsstring) option) \<Rightarrow> jsstring \<Rightarrow> nat \<Rightarrow> jsstring \<Rightarrow> jsstring list" where
  "split_from m acc skip [] = [rev acc]"
| "split_from m acc skip (c # cs) =
     (if 0 < skip then split_from m acc (skip - 1) cs
      else (case m (c # cs) of
              None \<Rightarrow> split_from m (c # acc) 0 cs
            | Some (n, _) \<Rightarrow> rev acc # split_from m [] (n - 1) cs))"

definition split_re :: "(jsstring \<Rightarrow> (nat \<times> jsstring) option) \<Rightarrow> jsstring \<Rightarrow> jsstring list" where
  "split_re m s = split_from m [] 0 s"

text \<open>
  \<^verbatim>\<open>Math.ceil(n / d)\<close> for a count \<open>n\<close> and a positive constant \<open>d\<close>. The quotient of
  two such doubles is rounded correctly, and a string length is far below \<open>2^53\<close>, so
  the result is the exact ceiling.
\<close>

definition ceil_div :: "nat \<Rightarrow> nat \<Rightarrow> nat" where
  "ceil_div n d = (n + d - 1) div d"

text \<open>\<^verbatim>\<open>calculateReadingTime(content, locale = 'en')\<close>; \<open>None\<close> is an omitted locale.\<close>

definition calculateReadingTime :: "jsstring \<Rightarrow> jsstring option \<Rightarrow> nat" where
  "calculateReadingTime content locale_arg =
     (let locale = (case locale_arg of None \<Rightarrow> of_ascii ''en'' | Some l \<Rightarrow> l) in
      if content = [] then 0
      else if locale = of_ascii ''ja'' then
        (let chars = length (replaceAll (run_match is_ws []) content)
         in ceil_div chars 400)
      else
        (let words = length (filter (\<lambda>w. w \<noteq> []) (split_re (run_match is_ws []) (trim content)))
         in ceil_div words 200))"

subsection \<open>The word count of the specification\<close>

text \<open>
  The word count in the words of the specification: the number of white-space
  delimited words, that is, of code units that are no white space and stand at the
  start of the text or behind white space. The flag says that the position is such a
  start.
\<close>

fun spec_word_count_from :: "bool \<Rightarrow> jsstring \<Rightarrow> nat" where
  "spec_word_count_from b [] = 0"
| "spec_word_count_from b (c # cs) =
     (if b \<and> \<not> is_ws c then 1 else 0) + spec_word_count_from (is_ws c) cs"

definition spec_word_count :: "jsstring \<Rightarrow> nat" where
  "spec_word_count s = spec_word_count_from True s"

section \<open>Excerpts\<close>

text \<open>The chain of replacements that computes \<^verbatim>\<open>plainText\<close> in \<^verbatim>\<open>generateExcerpt\<close>.\<close>

definition plainText :: "jsstring \<Rightarrow> jsstring" where
  "plainText content =
     trim
       (replaceAll (run_match is_ws [32])
         (replaceAll (run_match (\<lambda>c. c = 10) [32])
           (replaceAll tag_match
             (replaceAll code_match
               (replaceAll link_match
                 (replaceAll italic_match
                   (replaceAll bold_match
                     (replaceAll hashes_match content))))))))"

text \<open>\<^verbatim>\<open>s.slice(0, e)\<close> for an integer \<open>e\<close>: a negative end counts from the end of the string.\<close>

definition slice0 :: "jsstring \<Rightarrow> int \<Rightarrow> jsstring" where
  "slice0 s e = (if e < 0 then take (nat (int (length s) + e)) s else take (nat e) s)"

text \<open>
  \<^verbatim>\<open>generateExcerpt(content, maxLength = 160)\<close> for an integer maximum; \<open>None\<close> is an
  omitted maximum.
\<close>

definition generateExcerpt :: "jsstring \<Rightarrow> int option \<Rightarrow> jsstring" where
  "generateExcerpt content max_arg =
     (let maxLength = (case max_arg of None \<Rightarrow> 160 | Some n \<Rightarrow> n) in
      if content = [] then []
      else if int (length (plainText content)) \<le> maxLength then plainText content
      else trimEnd (slice0 (plainText content) maxLength) @ of_ascii ''...'')"

section \<open>Values of the CMS response\<close>

text \<open>
  The values \<^verbatim>\<open>normalize\<close> receives (\<^verbatim>\<open>any\<close>): what \<^verbatim>\<open>res.json()\<close> yields, and
  \<^verbatim>\<open>undefined\<close> for a missing property. A number is a real (a double other than
  \<^verbatim>\<open>NaN\<close> and the infinities, which JSON cannot express). An object is the list of its
  properties with distinct keys, in the order of insertion; that JavaScript lists
  integer-like keys first is not modelled, and nothing below depends on the order of
  the keys.
\<close>

datatype jsval =
    JUndefined
  | JNull
  | JBool bool
  | JNum real
  | JStr jsstring
  | JArr "jsval list"
  | JObj "(jsstring \<times> jsval) list"

text \<open>The truth value of a JavaScript value in a condition.\<close>

fun truthy :: "jsval \<Rightarrow> bool" where
  "truthy JUndefined = False"
| "truthy JNull = False"
| "truthy (JBool b) = b"
| "truthy (JNum x) = (x \<noteq> 0)"
| "truthy (JStr s) = (s \<noteq> [])"
| "truthy (JArr xs) = True"
| "truthy (JObj fs) = True"

text \<open>\<^verbatim>\<open>typeof v === 'object'\<close>: objects, arrays and \<^verbatim>\<open>null\<close>.\<close>

fun typeof_object :: "jsval \<Rightarrow> bool" where
  "typeof_object JNull = True"
| "typeof_object (JArr xs) = True"
| "typeof_object (JObj fs) = True"
| "typeof_object _ = False"

definition index_keys :: "nat \<Rightarrow> jsstring list" where
  "index_keys n = map dec [0..<n]"

text \<open>
  The own enumerable properties of a value, which an object spread \<^verbatim>\<open>{...v}\<close> copies:
  the properties of an object, the elements of an array and the code units of a
  string under their indices, nothing for the other values.
\<close>

fun own_entries :: "jsval \<Rightarrow> (jsstring \<times> jsval) list" where
  "own_entries (JObj fs) = fs"
| "own_entries (JArr xs) = zip (index_keys (length xs)) xs"
| "own_entries (JStr s) = zip (index_keys (length s)) (map (\<lambda>c. JStr [c]) s)"
| "own_entries _ = []"

text \<open>
  \<^verbatim>\<open>k in v\<close> for an object or an array (the source guards it by \<^verbatim>\<open>typeof\<close>), for the
  keys the source tests: \<^verbatim>\<open>id\<close>, \<^verbatim>\<open>attributes\<close> and \<^verbatim>\<open>data\<close>, none of which is inherited
  from a prototype.
\<close>

fun has_in :: "jsstring \<Rightarrow> jsval \<Rightarrow> bool" where
  "has_in k (JObj fs) = (k \<in> fst ` set fs)"
| "has_in k (JArr xs) = (k = of_ascii ''length'' \<or> k \<in> set (index_keys (length xs)))"
| "has_in k _ = False"

text \<open>
  The property read \<^verbatim>\<open>v.k\<close> (\<^verbatim>\<open>v?.k\<close> where \<open>v\<close> may be nullish) for the keys the
  source reads, \<^verbatim>\<open>id\<close>, \<^verbatim>\<open>attributes\<close>, \<^verbatim>\<open>data\<close> and \<^verbatim>\<open>meta\<close>: only an object has them.
\<close>

fun member :: "jsval \<Rightarrow> jsstring \<Rightarrow> jsval" where
  "member (JObj fs) k = (case map_of fs k of None \<Rightarrow> JUndefined | Some v \<Rightarrow> v)"
| "member _ k = JUndefined"

text \<open>\<^verbatim>\<open>v ?? d\<close>.\<close>

definition nullish :: "jsval \<Rightarrow> jsval \<Rightarrow> jsval" where
  "nullish v d = (if v = JNull \<or> v = JUndefined then d else v)"

text \<open>
  An object literal evaluated from the left: a later property of the same key
  replaces the value and keeps the place of the first.
\<close>

definition object_literal :: "(jsstring \<times> jsval) list \<Rightarrow> (jsstring \<times> jsval) list" where
  "object_literal es = foldl (\<lambda>obj (k, v). AList.update k v obj) [] es"

section \<open>The response normalizer\<close>

text \<open>\<^verbatim>\<open>{ id, ...(attributes ?? {}) }\<close> for \<^verbatim>\<open>const { id, attributes } = entity\<close>.\<close>

definition merge_entity :: "jsval \<Rightarrow> (jsstring \<times> jsval) list" where
  "merge_entity entity =
     object_literal
       ((of_ascii ''id'', member entity (of_ascii ''id'')) #
        own_entries (nullish (member entity (of_ascii ''attributes'')) (JObj [])))"

subsection \<open>The recursion of \<^verbatim>\<open>normalize\<close> ends\<close>

lemma dec_digits: "c \<in> set (dec n) \<Longrightarrow> 48 \<le> c \<and> c \<le> 57"
proof (induction n rule: dec.induct)
  case (1 n)
  show ?case
  proof (cases "n < 10")
    case True
    with "1.prems" show ?thesis by (simp add: dec.simps [of n])
  next
    case False
    with "1.prems" have "c \<in> set (dec (n div 10)) \<or> c = 48 + n mod 10"
      by (auto simp: dec.simps [of n])
    then show ?thesis
    proof
      assume "c \<in> set (dec (n div 10))"
      with False "1.IH" show ?thesis by simp
    next
      assume "c = 48 + n mod 10"
      moreover have "n mod 10 < 10" by simp
      ultimately show ?thesis by linarith
    qed
  qed
qed

lemma data_not_index: "of_ascii ''data'' \<notin> set (index_keys n)"
proof
  assume "of_ascii ''data'' \<in> set (index_keys n)"
  then obtain i where "of_ascii ''data'' = dec i" by (auto simp: index_keys_def)
  then have "100 \<in> set (dec i)" by (auto simp: of_ascii_def dest: sym)
  then show False using dec_digits [of 100 i] by simp
qed

lemma data_not_length: "of_ascii ''data'' \<noteq> of_ascii ''length''"
  by (simp add: of_ascii_def)

lemma has_in_data_obj:
  "typeof_object v \<Longrightarrow> has_in (of_ascii ''data'') v \<Longrightarrow> \<exists>w. v = JObj w"
  using data_not_index data_not_length by (cases v) auto

lemma size_field: "(k, v) \<in> set fs \<Longrightarrow> size v < size (JObj fs)"
  by (induction fs) auto

lemma size_elem: "x \<in> set xs \<Longrightarrow> size x < size (JArr xs)"
  by (induction xs) auto

lemma size_member_le: "size (member v k) \<le> size v"
proof (cases v)
  case (JObj fs)
  show ?thesis
  proof (cases "map_of fs k")
    case None
    with JObj show ?thesis by simp
  next
    case (Some a)
    then have "(k, a) \<in> set fs" by (rule map_of_SomeD)
    then have "size a < size (JObj fs)" by (rule size_field)
    with JObj Some show ?thesis by simp
  qed
qed simp_all

lemma size_member_obj: "size (member (JObj w) k) < size (JObj w)"
proof (cases "map_of w k")
  case None
  then show ?thesis by simp
next
  case (Some a)
  then have "(k, a) \<in> set w" by (rule map_of_SomeD)
  then have "size a < size (JObj w)" by (rule size_field)
  with Some show ?thesis by simp
qed

lemma set_update_subset: "set (AList.update k v al) \<subseteq> insert (k, v) (set al)"
  by (induction al) auto

lemma set_foldl_update:
  "set (foldl (\<lambda>obj (k, v). AList.update k v obj) acc es) \<subseteq> set acc \<union> set es"
proof (induction es arbitrary: acc)
  case Nil
  show ?case by simp
next
  case (Cons e es)
  obtain k v where e: "e = (k, v)" by (cases e)
  have "set (foldl (\<lambda>obj (k, v). AList.update k v obj) (AList.update k v acc) es)
          \<subseteq> set (AList.update k v acc) \<union> set es"
    by (rule Cons.IH)
  also have "\<dots> \<subseteq> insert (k, v) (set acc) \<union> set es"
    using set_update_subset [of k v acc] by auto
  finally show ?case by (auto simp: e)
qed

lemma set_object_literal: "set (object_literal es) \<subseteq> set es"
  using set_foldl_update [of "[]" es] by (simp add: object_literal_def)

lemma own_entries_obj: "(k, JObj w) \<in> set (own_entries a) \<Longrightarrow> size (JObj w) < size a"
proof (cases a)
  case (JArr xs)
  assume "(k, JObj w) \<in> set (own_entries a)"
  with JArr have "JObj w \<in> set xs" by (auto dest: set_zip_rightD)
  then have "size (JObj w) < size (JArr xs)" by (rule size_elem)
  with JArr show ?thesis by simp
next
  case (JObj fs)
  assume "(k, JObj w) \<in> set (own_entries a)"
  with JObj have "(k, JObj w) \<in> set fs" by simp
  then have "size (JObj w) < size (JObj fs)" by (rule size_field)
  with JObj show ?thesis by simp
next
  case (JStr s)
  assume "(k, JObj w) \<in> set (own_entries a)"
  with JStr show ?thesis by (auto dest: set_zip_rightD)
qed simp_all

lemma merge_entity_obj:
  assumes "(k, JObj w) \<in> set (merge_entity e)"
  shows "size (JObj w) \<le> size e"
proof -
  let ?a = "member e (of_ascii ''attributes'')"
  from assms set_object_literal
  have "(k, JObj w) = (of_ascii ''id'', member e (of_ascii ''id'')) \<or>
        (k, JObj w) \<in> set (own_entries (nullish ?a (JObj [])))"
    unfolding merge_entity_def by fastforce
  then show ?thesis
  proof
    assume "(k, JObj w) = (of_ascii ''id'', member e (of_ascii ''id''))"
    then have "JObj w = member e (of_ascii ''id'')" by simp
    then show ?thesis using size_member_le [of e "of_ascii ''id''"] by simp
  next
    assume "(k, JObj w) \<in> set (own_entries (nullish ?a (JObj [])))"
    then have "size (JObj w) < size (nullish ?a (JObj []))" by (rule own_entries_obj)
    moreover have "size (nullish ?a (JObj [])) \<le> size ?a + 1" by (simp add: nullish_def)
    moreover have "nullish ?a (JObj []) = JObj [] \<or> nullish ?a (JObj []) = ?a"
      by (simp add: nullish_def)
    ultimately have "size (JObj w) < size ?a"
      using \<open>(k, JObj w) \<in> set (own_entries (nullish ?a (JObj [])))\<close> by auto
    then show ?thesis using size_member_le [of e "of_ascii ''attributes''"] by simp
  qed
qed

lemma wrapper_payload_size:
  assumes "(key, v) \<in> set (merge_entity e)" "typeof_object v" "has_in (of_ascii ''data'') v"
  shows "size (member v (of_ascii ''data'')) < size e"
proof -
  from assms(2,3) obtain w where w: "v = JObj w" using has_in_data_obj by blast
  have "size (member (JObj w) (of_ascii ''data'')) < size (JObj w)" by (rule size_member_obj)
  moreover have "size (JObj w) \<le> size e" using assms(1) w merge_entity_obj by blast
  ultimately show ?thesis using w by simp
qed

text \<open>
  \<^verbatim>\<open>normalize\<close>. The loop over \<^verbatim>\<open>Object.keys(normalized)\<close> assigns to the key it
  visits only, so it is a map over the properties.
\<close>

function normalize :: "jsval \<Rightarrow> jsval" where
  "normalize entity =
     (if \<not> truthy entity then JNull
      else if typeof_object entity \<and> has_in (of_ascii ''id'') entity \<and> has_in (of_ascii ''attributes'') entity then
        JObj (map (\<lambda>(key, value).
                (key,
                 if truthy value \<and> typeof_object value \<and> has_in (of_ascii ''data'') value then
                   (case member value (of_ascii ''data'') of
                      JNull \<Rightarrow> JNull
                    | JArr rel \<Rightarrow> JArr (map normalize rel)
                    | rel \<Rightarrow> normalize rel)
                 else value))
              (merge_entity entity))
      else entity)"
  by pat_completeness auto
termination
proof (relation "measure size")
  show "wf (measure size)" by simp
next
  fix entity :: jsval and x :: "jsstring \<times> jsval" and key v rel y
  assume "(key, v) = x" "x \<in> set (merge_entity entity)"
    "truthy v \<and> typeof_object v \<and> has_in (of_ascii ''data'') v"
    "member v (of_ascii ''data'') = JArr rel" "y \<in> set rel"
  then have "size (JArr rel) < size entity" using wrapper_payload_size [of key v entity] by auto
  moreover have "size y < size (JArr rel)" using \<open>y \<in> set rel\<close> by (rule size_elem)
  ultimately show "(y, entity) \<in> measure size" by simp
qed (auto dest: wrapper_payload_size)

declare normalize.simps [simp del]

text \<open>What \<^verbatim>\<open>normalize\<close> does to one property of the merged object.\<close>

definition resolve_relation :: "jsval \<Rightarrow> jsval" where
  "resolve_relation v =
     (if truthy v \<and> typeof_object v \<and> has_in (of_ascii ''data'') v then
        (case member v (of_ascii ''data'') of
           JNull \<Rightarrow> JNull
         | JArr rel \<Rightarrow> JArr (map normalize rel)
         | rel \<Rightarrow> normalize rel)
      else v)"

text \<open>\<^verbatim>\<open>normalizeResponse\<close>.\<close>

record normalized_response =
  n_data :: jsval
  n_meta :: jsval

definition normalizeResponse :: "jsval \<Rightarrow> normalized_response" where
  "normalizeResponse response =
     (let d = member response (of_ascii ''data'') in
      \<lparr>n_data = (case d of JArr xs \<Rightarrow> JArr (map normalize xs) | _ \<Rightarrow> normalize d),
       n_meta = member response (of_ascii ''meta'')\<rparr>)"

section \<open>The content fetch layer\<close>

text \<open>
  A request is the resource path with the entries of its \<^verbatim>\<open>URLSearchParams\<close>, in order;
  the base URL \<^verbatim>\<open>STRAPI_URL\<close> and the serialisation of the query belong to the
  environment. \<^verbatim>\<open>fetch\<close> is a parameter: it rejects, or answers with \<^verbatim>\<open>res.ok\<close>,
  \<^verbatim>\<open>res.status\<close> and the value of \<^verbatim>\<open>res.json()\<close>, which rejects (\<open>None\<close>) when the body
  is no JSON.
\<close>

record request =
  req_path :: jsstring
  req_params :: "(jsstring \<times> jsstring) list"

datatype http_result = Rejected | Response bool nat "jsval option"

datatype fetch_error = TransportFailure | ErrorMessage jsstring | BodyNotJson | ConversionThrew

text \<open>
  What the fetch operations return: \<^verbatim>\<open>{ data, meta }\<close>, or \<^verbatim>\<open>{ data }\<close> with no \<^verbatim>\<open>meta\<close>
  property (\<open>None\<close>). A \<^verbatim>\<open>meta\<close> property whose value is \<^verbatim>\<open>undefined\<close> is
  \<open>Some JUndefined\<close>.
\<close>

record fetch_response =
  r_data :: "jsval list"
  r_meta :: "jsval option"

text \<open>\<^verbatim>\<open>Array.isArray(d) ? d : d ? [d] : []\<close>.\<close>

definition as_array :: "jsval \<Rightarrow> jsval list" where
  "as_array d = (case d of JArr xs \<Rightarrow> xs | _ \<Rightarrow> if truthy d then [d] else [])"

text \<open>
  The body of \<^verbatim>\<open>try\<close> up to the normalized response, shared by the three operations:
  the \<^verbatim>\<open>fetch\<close>, the check of \<^verbatim>\<open>res.ok\<close> with the error it throws, \<^verbatim>\<open>res.json()\<close> and
  \<^verbatim>\<open>normalizeResponse\<close>.
\<close>

definition fetch_normalized ::
  "(request \<Rightarrow> http_result) \<Rightarrow> request \<Rightarrow> (nat \<Rightarrow> jsstring) \<Rightarrow> fetch_error + normalized_response" where
  "fetch_normalized fetch req msg =
     (case fetch req of
        Rejected \<Rightarrow> Inl TransportFailure
      | Response ok status body \<Rightarrow>
          if \<not> ok then Inl (ErrorMessage (msg status))
          else (case body of
                  None \<Rightarrow> Inl BodyNotJson
                | Some json \<Rightarrow> Inr (normalizeResponse json)))"

definition populate_params :: "(jsstring \<times> jsstring) list" where
  "populate_params =
     [(of_ascii ''populate[coverImage]'', of_ascii ''true''),
      (of_ascii ''populate[heroImage]'', of_ascii ''true''),
      (of_ascii ''populate[category]'', of_ascii ''true'')]"

text \<open>
  One entry of \<^verbatim>\<open>filters\<close> in \<^verbatim>\<open>fetchArticles\<close>. \<open>str\<close> stands for \<^verbatim>\<open>String(value)\<close>,
  the platform's conversion; a filter value is \<^verbatim>\<open>any\<close>, and the conversion can throw
  (for an object whose conversion to a primitive throws).
\<close>

definition filter_param ::
  "(jsval \<Rightarrow> fetch_error + jsstring) \<Rightarrow> jsstring \<times> jsval \<Rightarrow>
   fetch_error + (jsstring \<times> jsstring) list" where
  "filter_param str kv =
     (case kv of (key, v) \<Rightarrow>
        if v = JUndefined \<or> v = JNull then Inr []
        else if key = of_ascii ''category.slug'' then
          (case str v of
             Inl e \<Rightarrow> Inl e
           | Inr s \<Rightarrow> Inr [(of_ascii ''filters[category][slug][$eq]'', s)])
        else (case v of
                JBool b \<Rightarrow>
                  Inr [(of_ascii ''filters['' @ key @ of_ascii ''][$eq]'',
                        if b then of_ascii ''true'' else of_ascii ''false'')]
              | _ \<Rightarrow>
                  (case str v of
                     Inl e \<Rightarrow> Inl e
                   | Inr s \<Rightarrow> Inr [(of_ascii ''filters['' @ key @ of_ascii ''][$eq]'', s)])))"

text \<open>
  \<^verbatim>\<open>Object.entries(filters).forEach(...)\<close>: the entries in order; the first conversion
  that throws ends the loop.
\<close>

fun filter_params ::
  "(jsval \<Rightarrow> fetch_error + jsstring) \<Rightarrow> (jsstring \<times> jsval) list \<Rightarrow>
   fetch_error + (jsstring \<times> jsstring) list" where
  "filter_params str [] = Inr []"
| "filter_params str (kv # rest) =
     (case filter_param str kv of
        Inl e \<Rightarrow> Inl e
      | Inr ps \<Rightarrow>
          (case filter_params str rest of
             Inl e \<Rightarrow> Inl e
           | Inr qs \<Rightarrow> Inr (ps @ qs)))"

text \<open>
  The part of \<^verbatim>\<open>fetchArticles(locale = 'en', filters = {}, sort = 'publishedAt:desc',
  pageSize = 50)\<close> before its \<^verbatim>\<open>try\<close> block, which builds the request; \<open>None\<close> is an
  omitted argument. What a conversion of a filter value throws is the result.
\<close>

definition articles_request ::
  "(jsval \<Rightarrow> fetch_error + jsstring) \<Rightarrow> jsstring option \<Rightarrow> (jsstring \<times> jsval) list option \<Rightarrow>
   jsstring option \<Rightarrow> nat option \<Rightarrow> fetch_error + request" where
  "articles_request str locale_arg filters_arg sort_arg pageSize_arg =
     (let locale = (case locale_arg of None \<Rightarrow> of_ascii ''en'' | Some l \<Rightarrow> l);
          filters = (case filters_arg of None \<Rightarrow> [] | Some f \<Rightarrow> f);
          sort = (case sort_arg of None \<Rightarrow> of_ascii ''publishedAt:desc'' | Some x \<Rightarrow> x);
          pageSize = (case pageSize_arg of None \<Rightarrow> 50 | Some n \<Rightarrow> n)
      in case filter_params str filters of
           Inl e \<Rightarrow> Inl e
         | Inr fs \<Rightarrow>
             Inr \<lparr>req_path = of_ascii ''/api/articles'',
                  req_params =
                    [(of_ascii ''locale'', locale), (of_ascii ''sort'', sort)] @
                    [(of_ascii ''pagination[pageSize]'', dec pageSize)] @
                    populate_params @
                    fs\<rparr>)"

text \<open>
  \<^verbatim>\<open>fetchArticles\<close>: what the building of the request throws is thrown to the caller;
  the \<^verbatim>\<open>try\<close> block covers the rest.
\<close>

definition fetchArticles ::
  "(request \<Rightarrow> http_result) \<Rightarrow> (jsval \<Rightarrow> fetch_error + jsstring) \<Rightarrow> jsstring option \<Rightarrow>
   (jsstring \<times> jsval) list option \<Rightarrow> jsstring option \<Rightarrow> nat option \<Rightarrow>
   fetch_error + fetch_response" where
  "fetchArticles fetch str locale_arg filters_arg sort_arg pageSize_arg =
     (case articles_request str locale_arg filters_arg sort_arg pageSize_arg of
        Inl e \<Rightarrow> Inl e
      | Inr req \<Rightarrow>
          try_catch
            (case fetch_normalized fetch req
                    (\<lambda>status. of_ascii ''API error: '' @ dec status) of
               Inl e \<Rightarrow> Inl e
             | Inr normalized \<Rightarrow>
                 Inr \<lparr>r_data = as_array (n_data normalized),
                      r_meta = Some (n_meta normalized)\<rparr>)
            (\<lambda>error. Inr \<lparr>r_data = [], r_meta = Some (JObj [])\<rparr>))"

text \<open>\<^verbatim>\<open>fetchArticle(slug, locale = 'en')\<close>: the first item or \<^verbatim>\<open>null\<close>.\<close>

definition article_request :: "jsstring \<Rightarrow> jsstring option \<Rightarrow> request" where
  "article_request slug locale_arg =
     (let locale = (case locale_arg of None \<Rightarrow> of_ascii ''en'' | Some l \<Rightarrow> l)
      in \<lparr>req_path = of_ascii ''/api/articles'',
          req_params =
            [(of_ascii ''locale'', locale)] @
            [(of_ascii ''filters[slug][$eq]'', slug)] @
            populate_params @
            [(of_ascii ''pagination[pageSize]'', of_ascii ''1'')]\<rparr>)"

definition fetchArticle ::
  "(request \<Rightarrow> http_result) \<Rightarrow> jsstring \<Rightarrow> jsstring option \<Rightarrow> fetch_error + jsval" where
  "fetchArticle fetch slug locale_arg =
     try_catch
       (case fetch_normalized fetch (article_request slug locale_arg)
               (\<lambda>status. of_ascii ''Article not found: '' @ dec status) of
          Inl e \<Rightarrow> Inl e
        | Inr normalized \<Rightarrow>
            Inr (case as_array (n_data normalized) of
                   [] \<Rightarrow> JNull
                 | item # _ \<Rightarrow> nullish item JNull))
       (\<lambda>error. Inr JNull)"

text \<open>\<^verbatim>\<open>fetchCategories(locale = 'en')\<close>; its fallback \<^verbatim>\<open>{ data: [] }\<close> has no \<^verbatim>\<open>meta\<close>
  property.\<close>

definition categories_request :: "jsstring option \<Rightarrow> request" where
  "categories_request locale_arg =
     (let locale = (case locale_arg of None \<Rightarrow> of_ascii ''en'' | Some l \<Rightarrow> l)
      in \<lparr>req_path = of_ascii ''/api/categories'',
          req_params =
            [(of_ascii ''locale'', locale), (of_ascii ''sort'', of_ascii ''order:asc'')] @
            [(of_ascii ''pagination[pageSize]'', of_ascii ''100'')]\<rparr>)"

definition fetchCategories ::
  "(request \<Rightarrow> http_result) \<Rightarrow> jsstring option \<Rightarrow> fetch_error + fetch_response" where
  "fetchCategories fetch locale_arg =
     try_catch
       (case fetch_normalized fetch (categories_request locale_arg)
               (\<lambda>status. of_ascii ''Failed to fetch categories'') of
          Inl e \<Rightarrow> Inl e
        | Inr normalized \<Rightarrow>
            Inr \<lparr>r_data = as_array (n_data normalized), r_meta = Some (n_meta normalized)\<rparr>)
       (\<lambda>error. Inr \<lparr>r_data = [], r_meta = None\<rparr>)"

section \<open>Locales and UI strings\<close>

definition locales :: "jsstring list" where
  "locales = map of_ascii [''en'', ''ja'', ''es'', ''fr'', ''th'', ''id'', ''zh'', ''de'']"

definition defaultLocale :: jsstring where
  "defaultLocale = of_ascii ''en''"

text \<open>The tables \<^verbatim>\<open>uiBase\<close> and \<^verbatim>\<open>uiJa\<close>; text beyond ASCII is given by its code units.\<close>

definition uiBase :: "(jsstring \<times> jsstring) list" where
  "uiBase =
     [
      (of_ascii ''site.title'', of_ascii ''Genryu Japan''),
      (of_ascii ''site.subtitle'', of_ascii ''A quiet interface to deep Japanese context''),
      (of_ascii ''site.tagline'', of_ascii ''The Origin of Flow''),
      (of_ascii ''nav.home'', of_ascii ''Home''),
      (of_ascii ''nav.culture'', of_ascii ''Culture''),
      (of_ascii ''nav.language'', of_ascii ''Language''),
      (of_ascii ''nav.food'', of_ascii ''Food''),
      (of_ascii ''nav.society'', of_ascii ''Society''),
      (of_ascii ''nav.art'', of_ascii ''Art''),
      (of_ascii ''nav.travel'', of_ascii ''Travel''),
      (of_ascii ''nav.about'', of_ascii ''About''),
      (of_ascii ''home.editorialPicks'', of_ascii ''Editorial Picks''),
      (of_ascii ''home.categoryGlimpses'', of_ascii ''Explore by Category''),
      (of_ascii ''home.deepDive'', of_ascii ''Deep Dive''),
      (of_ascii ''home.deepDiveDesc'', of_ascii ''Long-form essays on Japanese culture, edited from a personal perspective.''),
      (of_ascii ''home.aboutTeaser'', of_ascii ''About Genryu Japan''),
      (of_ascii ''home.aboutTeaserText'', of_ascii ''Zen, Gen, Zine are not categories, but perspectives.''),
      (of_ascii ''home.more'', of_ascii ''More''),
      (of_ascii ''home.comingSoon'', of_ascii ''Coming soon...''),
      (of_ascii ''home.learnMore'', of_ascii ''Learn more''),
      (of_ascii ''article.readMore'', of_ascii ''Read more''),
      (of_ascii ''article.readTime'', of_ascii ''min read''),
      (of_ascii ''article.publishedOn'', of_ascii ''Published on''),
      (of_ascii ''footer.philosophy'', of_ascii ''Zen / Gen / Zine''),
      (of_ascii ''footer.tagline'', [69, 120, 112, 108, 111, 114, 105, 110, 103, 32, 74, 97, 112, 97, 110, 32, 116, 104, 114, 111, 117, 103, 104, 32, 99, 111, 110, 116, 101, 120, 116, 44, 32, 110, 111, 116, 32, 99, 108, 105, 99, 104, 233, 115, 46]),
      (of_ascii ''footer.navigate'', of_ascii ''Navigate''),
      (of_ascii ''footer.connect'', of_ascii ''Connect''),
      (of_ascii ''footer.copyright'', of_ascii ''All rights reserved''),
      (of_ascii ''footer.privacy'', of_ascii ''Privacy'')
     ]"

definition uiJa :: "(jsstring \<times> jsstring) list" where
  "uiJa =
     [
      (of_ascii ''site.title'', [28304, 27969, 12472, 12515, 12497, 12531]),
      (of_ascii ''site.subtitle'', [28145, 12356, 26085, 26412, 12398, 25991, 33032, 12408, 12398, 38745, 12363, 12394, 12452, 12531, 12479, 12540, 12501, 12455, 12540, 12473]),
      (of_ascii ''site.tagline'', of_ascii ''The Origin of Flow''),
      (of_ascii ''nav.home'', [12507, 12540, 12512]),
      (of_ascii ''nav.culture'', [25991, 21270]),
      (of_ascii ''nav.language'', [35328, 35486]),
      (of_ascii ''nav.food'', [39135]),
      (of_ascii ''nav.society'', [31038, 20250]),
      (of_ascii ''nav.art'', [12450, 12540, 12488]),
      (of_ascii ''nav.travel'', [26053]),
      (of_ascii ''nav.about'', [12395, 12388, 12356, 12390]),
      (of_ascii ''home.editorialPicks'', [32232, 38598, 37096, 12398, 12362, 12377, 12377, 12417]),
      (of_ascii ''home.categoryGlimpses'', [12459, 12486, 12468, 12522, 12363, 12425, 25506, 12377]),
      (of_ascii ''home.deepDive'', of_ascii ''Deep Dive''),
      (of_ascii ''home.deepDiveDesc'', [26085, 26412, 25991, 21270, 12395, 12388, 12356, 12390, 12398, 38263, 25991, 12456, 12483, 12475, 12452, 12289, 20491, 20154, 30340, 35222, 28857, 12363, 12425, 32232, 38598]),
      (of_ascii ''home.aboutTeaser'', [28304, 27969, 12472, 12515, 12497, 12531, 12395, 12388, 12356, 12390]),
      (of_ascii ''home.aboutTeaserText'', [90, 101, 110, 12289, 71, 101, 110, 12289, 90, 105, 110, 101, 12399, 12459, 12486, 12468, 12522, 12391, 12399, 12394, 12367, 12289, 35222, 28857, 12391, 12377, 12290]),
      (of_ascii ''home.more'', [12418, 12387, 12392, 35211, 12427]),
      (of_ascii ''home.comingSoon'', [28310, 20633, 20013, 46, 46, 46]),
      (of_ascii ''home.learnMore'', [12418, 12387, 12392, 30693, 12427]),
      (of_ascii ''article.readMore'', [32154, 12365, 12434, 35501, 12416]),
      (of_ascii ''article.readTime'', [20998]),
      (of_ascii ''article.publishedOn'', [20844, 38283, 26085]),
      (of_ascii ''footer.philosophy'', of_ascii ''Zen / Gen / Zine''),
      (of_ascii ''footer.tagline'', [26085, 26412, 12434, 25991, 33032, 12363, 12425, 25506, 12427, 12289, 12463, 12522, 12471, 12455, 12391, 12399, 12394, 12367]),
      (of_ascii ''footer.navigate'', [12490, 12499, 12466, 12540, 12471, 12519, 12531]),
      (of_ascii ''footer.connect'', [12388, 12394, 12364, 12427]),
      (of_ascii ''footer.copyright'', of_ascii ''All rights reserved''),
      (of_ascii ''footer.privacy'', [12503, 12521, 12452, 12496, 12471, 12540])
     ]"

text \<open>The table \<^verbatim>\<open>ui\<close>; a spread \<^verbatim>\<open>{ ...uiBase }\<close> is a copy of \<^verbatim>\<open>uiBase\<close>.\<close>

definition ui :: "(jsstring \<times> (jsstring \<times> jsstring) list) list" where
  "ui =
     [(of_ascii ''en'', uiBase),
      (of_ascii ''ja'', uiJa),
      (of_ascii ''es'', uiBase),
      (of_ascii ''fr'', uiBase),
      (of_ascii ''th'', uiBase),
      (of_ascii ''id'', uiBase),
      (of_ascii ''zh'', uiBase),
      (of_ascii ''de'', uiBase)]"

text \<open>
  \<^verbatim>\<open>t(locale: Locale, key: UiKey)\<close>: \<^verbatim>\<open>ui[locale]?.[key] ?? ui[defaultLocale][key]\<close>. The
  result is \<open>Inr None\<close> for \<^verbatim>\<open>undefined\<close>, and \<open>Inl ()\<close> for the \<^verbatim>\<open>TypeError\<close> of
  reading a property of \<^verbatim>\<open>undefined\<close>.

  The model is for a key of type \<^verbatim>\<open>UiKey\<close>, that is, a key of \<^verbatim>\<open>uiBase\<close>; the locale
  may be any string. The tables are plain objects, and a property read also finds what
  they inherit from \<^verbatim>\<open>Object.prototype\<close> (\<^verbatim>\<open>constructor\<close>, \<^verbatim>\<open>toString\<close> and the like). No
  UI key names an inherited member, and no inherited member has a property named by a
  UI key, so for a UI key \<^verbatim>\<open>ui[locale]?.[key]\<close> is \<^verbatim>\<open>undefined\<close> exactly when the own
  properties do not give a string, whatever the locale. For other keys the model does
  not follow the code (\<^verbatim>\<open>t('constructor', 'name')\<close> is \<^verbatim>\<open>'Object'\<close>), and the
  properties below are stated for UI keys only.
\<close>

definition t :: "jsstring \<Rightarrow> jsstring \<Rightarrow> unit + jsstring option" where
  "t locale key =
     (case (case map_of ui locale of None \<Rightarrow> None | Some tbl \<Rightarrow> map_of tbl key) of
        Some s \<Rightarrow> Inr (Some s)
      | None \<Rightarrow>
          (case map_of ui defaultLocale of
             None \<Rightarrow> Inl ()
           | Some tbl \<Rightarrow> Inr (map_of tbl key)))"




section \<open>Properties of \<^verbatim>\<open>parseMarkdown\<close>\<close>

text \<open>
  Claim C9. \<^verbatim>\<open>parseMarkdown\<close> never raises: it always returns a string, and when the
  underlying rendering throws, the exception is caught and the original, unrendered
  Markdown input is returned unchanged.
\<close>

theorem parseMarkdown_falls_back:
  "(\<exists>out. parseMarkdown render markdown = Inr out) \<and>
   (\<forall>e. render markdown = Inl e \<longrightarrow> parseMarkdown render markdown = Inr markdown)"
  by (cases "render markdown") (simp_all add: parseMarkdown_def try_catch_def)

theorem parseMarkdown_falls_back_witness:
  "(\<lambda>m. Inl ()) (of_ascii ''# Title'') = (Inl () :: unit + jsstring) \<and>
   parseMarkdown (\<lambda>m. Inl ()) (of_ascii ''# Title'') = (Inr (of_ascii ''# Title'') :: unit + jsstring)"
  using parseMarkdown_falls_back [of "\<lambda>m. Inl ()" "of_ascii ''# Title''"] by simp

section \<open>Properties of the UI strings\<close>

lemma ui_lookup:
  "locale \<in> set locales \<Longrightarrow>
     map_of ui locale = Some (if locale = of_ascii ''ja'' then uiJa else uiBase)"
  by (auto simp: ui_def locales_def of_ascii_def)

lemma ui_default: "map_of ui defaultLocale = Some uiBase"
  by (simp add: ui_def defaultLocale_def of_ascii_def)

lemma t_known_locale:
  assumes "locale \<in> set locales"
  shows "t locale key =
           Inr (case map_of (if locale = of_ascii ''ja'' then uiJa else uiBase) key of
                  Some s \<Rightarrow> Some s
                | None \<Rightarrow> map_of uiBase key)"
  using ui_lookup [OF assms] by (simp add: t_def ui_default split: option.split)

text \<open>
  Claim C10. For each of the eight supported locales and every UI key (a key of
  \<^verbatim>\<open>uiBase\<close>), \<^verbatim>\<open>t(locale, key)\<close> is a defined string, never \<^verbatim>\<open>undefined\<close>; for the six
  locales other than \<^verbatim>\<open>en\<close> and \<^verbatim>\<open>ja\<close> it is exactly the English string
  \<^verbatim>\<open>t('en', key)\<close>.
\<close>

theorem t_defined_english_copy:
  assumes "locale \<in> set locales" and "key \<in> fst ` set uiBase"
  shows "(\<exists>s. t locale key = Inr (Some s)) \<and>
         (locale \<noteq> of_ascii ''en'' \<and> locale \<noteq> of_ascii ''ja'' \<longrightarrow>
            t locale key = t (of_ascii ''en'') key)"
proof -
  from assms(2) obtain s where s: "map_of uiBase key = Some s"
    by (cases "map_of uiBase key") (auto simp: map_of_eq_None_iff)
  have en: "of_ascii ''en'' \<in> set locales" by (simp add: locales_def)
  have en_ja: "of_ascii ''en'' \<noteq> of_ascii ''ja''" by (simp add: of_ascii_def)
  have "\<exists>r. t locale key = Inr (Some r)"
    using s by (simp add: t_known_locale [OF assms(1)] split: option.split)
  moreover have "t (of_ascii ''en'') key = Inr (Some s)"
    using s en_ja by (simp add: t_known_locale [OF en])
  moreover have "locale \<noteq> of_ascii ''ja'' \<Longrightarrow> t locale key = Inr (Some s)"
    using s by (simp add: t_known_locale [OF assms(1)])
  ultimately show ?thesis by simp
qed

theorem t_defined_english_copy_witness:
  "of_ascii ''de'' \<in> set locales \<and> of_ascii ''nav.home'' \<in> fst ` set uiBase \<and>
   t (of_ascii ''de'') (of_ascii ''nav.home'') = Inr (Some (of_ascii ''Home'')) \<and>
   t (of_ascii ''de'') (of_ascii ''nav.home'') = t (of_ascii ''en'') (of_ascii ''nav.home'')"
proof -
  have l: "of_ascii ''de'' \<in> set locales" by (simp add: locales_def)
  have k: "of_ascii ''nav.home'' \<in> fst ` set uiBase" by (simp add: uiBase_def)
  have ne: "of_ascii ''de'' \<noteq> of_ascii ''en'' \<and> of_ascii ''de'' \<noteq> of_ascii ''ja''"
    by (simp add: of_ascii_def)
  have v: "t (of_ascii ''en'') (of_ascii ''nav.home'') = Inr (Some (of_ascii ''Home''))"
    by (simp add: t_def ui_def uiBase_def defaultLocale_def of_ascii_def)
  from t_defined_english_copy [OF l k] ne v l k show ?thesis by simp
qed

section \<open>Properties of the content fetch layer\<close>

lemma filter_params_total:
  "\<forall>kv \<in> set filters. \<exists>s. str (snd kv) = Inr s \<Longrightarrow> \<exists>fs. filter_params str filters = Inr fs"
proof (induction filters)
  case Nil
  show ?case by simp
next
  case (Cons kv rest)
  obtain k v where kv: "kv = (k, v)" by (cases kv)
  from Cons.prems kv obtain s where s: "str v = Inr s" by auto
  from Cons obtain qs where qs: "filter_params str rest = Inr qs" by auto
  have "\<exists>ps. filter_param str kv = Inr ps"
    using s by (auto simp: filter_param_def kv split: jsval.split)
  with qs show ?case by auto
qed

lemma articles_request_total:
  assumes "\<forall>kv \<in> set (case filters of None \<Rightarrow> [] | Some f \<Rightarrow> f). \<exists>s. str (snd kv) = Inr s"
  shows "\<exists>req. articles_request str loc filters srt pageSize = Inr req"
  using filter_params_total [OF assms] by (auto simp: articles_request_def)


lemma default_articles_request:
  "articles_request str loc None srt pageSize =
     Inr \<lparr>req_path = of_ascii ''/api/articles'',
          req_params =
            [(of_ascii ''locale'', case loc of None \<Rightarrow> of_ascii ''en'' | Some l \<Rightarrow> l),
             (of_ascii ''sort'', case srt of None \<Rightarrow> of_ascii ''publishedAt:desc'' | Some x \<Rightarrow> x),
             (of_ascii ''pagination[pageSize]'', dec (case pageSize of None \<Rightarrow> 50 | Some n \<Rightarrow> n))] @
            populate_params\<rparr>"
  by (simp add: articles_request_def)

lemma empty_response_normalized:
  "normalizeResponse (JObj [(of_ascii ''data'', JArr []), (of_ascii ''meta'', m)]) =
     \<lparr>n_data = JArr [], n_meta = m\<rparr>"
  by (simp add: normalizeResponse_def of_ascii_def)

lemma empty_response_no_meta:
  "normalizeResponse (JObj [(of_ascii ''data'', JArr [])]) =
     \<lparr>n_data = JArr [], n_meta = JUndefined\<rparr>"
  by (simp add: normalizeResponse_def of_ascii_def)

lemma n_meta_normalizeResponse: "n_meta (normalizeResponse json) = member json (of_ascii ''meta'')"
  by (simp add: normalizeResponse_def Let_def)

text \<open>
  Claim C7, as stated, fails in its last part: a failed fetch is not indistinguishable
  from an empty result. A successful answer with an empty \<^verbatim>\<open>data\<close> list and the \<^verbatim>\<open>meta\<close>
  of a paginated list makes \<^verbatim>\<open>fetchArticles\<close> return that \<^verbatim>\<open>meta\<close>, where a failed fetch
  returns \<^verbatim>\<open>meta: {}\<close>; and a successful answer to \<^verbatim>\<open>fetchCategories\<close> gives a result with a
  \<^verbatim>\<open>meta\<close> property, where a failed fetch gives \<^verbatim>\<open>{ data: [] }\<close> without one.
\<close>

theorem failed_fetch_distinguishable:
  "fetchArticles (\<lambda>req. Rejected) (\<lambda>v. Inr []) None None None None =
     Inr \<lparr>r_data = [], r_meta = Some (JObj [])\<rparr> \<and>
   fetchArticles
     (\<lambda>req. Response True 200
        (Some (JObj [(of_ascii ''data'', JArr []),
                     (of_ascii ''meta'', JObj [(of_ascii ''pagination'', JObj [(of_ascii ''total'', JNum 0)])])])))
     (\<lambda>v. Inr []) None None None None =
     Inr \<lparr>r_data = [],
          r_meta = Some (JObj [(of_ascii ''pagination'', JObj [(of_ascii ''total'', JNum 0)])])\<rparr> \<and>
   fetchArticles (\<lambda>req. Rejected) (\<lambda>v. Inr []) None None None None \<noteq>
   fetchArticles
     (\<lambda>req. Response True 200
        (Some (JObj [(of_ascii ''data'', JArr []),
                     (of_ascii ''meta'', JObj [(of_ascii ''pagination'', JObj [(of_ascii ''total'', JNum 0)])])])))
     (\<lambda>v. Inr []) None None None None \<and>
   fetchCategories (\<lambda>req. Rejected) None = Inr \<lparr>r_data = [], r_meta = None\<rparr> \<and>
   fetchCategories (\<lambda>req. Response True 200 (Some (JObj [(of_ascii ''data'', JArr [])]))) None =
     Inr \<lparr>r_data = [], r_meta = Some JUndefined\<rparr> \<and>
   fetchCategories (\<lambda>req. Rejected) None \<noteq>
   fetchCategories (\<lambda>req. Response True 200 (Some (JObj [(of_ascii ''data'', JArr [])]))) None"
proof -
  have a: "fetchArticles (\<lambda>req. Rejected) (\<lambda>v. Inr []) None None None None =
     Inr \<lparr>r_data = [], r_meta = Some (JObj [])\<rparr>"
    by (simp add: fetchArticles_def default_articles_request fetch_normalized_def try_catch_def)
  have b: "fetchArticles
     (\<lambda>req. Response True 200
        (Some (JObj [(of_ascii ''data'', JArr []),
                     (of_ascii ''meta'', JObj [(of_ascii ''pagination'', JObj [(of_ascii ''total'', JNum 0)])])])))
     (\<lambda>v. Inr []) None None None None =
     Inr \<lparr>r_data = [],
          r_meta = Some (JObj [(of_ascii ''pagination'', JObj [(of_ascii ''total'', JNum 0)])])\<rparr>"
    by (simp add: fetchArticles_def default_articles_request fetch_normalized_def try_catch_def
          empty_response_normalized as_array_def)
  have c: "fetchCategories (\<lambda>req. Rejected) None = Inr \<lparr>r_data = [], r_meta = None\<rparr>"
    by (simp add: fetchCategories_def fetch_normalized_def try_catch_def)
  have d: "fetchCategories (\<lambda>req. Response True 200 (Some (JObj [(of_ascii ''data'', JArr [])]))) None =
     Inr \<lparr>r_data = [], r_meta = Some JUndefined\<rparr>"
    by (simp add: fetchCategories_def fetch_normalized_def try_catch_def empty_response_no_meta
          as_array_def)
  show ?thesis unfolding a b c d by simp
qed

text \<open>
  Claim C7, amended. Once the request is built, the three fetch operations return a
  value whatever \<^verbatim>\<open>fetch\<close> does (and the request of \<^verbatim>\<open>fetchArticles\<close> is built whenever
  the conversion of no filter value throws). On a transport failure, on a non-success
  status and when the body is no JSON they return their safe defaults:
  \<^verbatim>\<open>{ data: [], meta: {} }\<close>, \<^verbatim>\<open>null\<close> and \<^verbatim>\<open>{ data: [] }\<close>. A successful answer with
  no data gives the same \<^verbatim>\<open>data\<close>, the empty list, with the \<^verbatim>\<open>meta\<close> of the answer: for
  \<^verbatim>\<open>fetchArticles\<close> this is the value of a failed fetch exactly when that \<^verbatim>\<open>meta\<close> is
  \<^verbatim>\<open>{}\<close>, for \<^verbatim>\<open>fetchCategories\<close> never, and for \<^verbatim>\<open>fetchArticle\<close> both are \<^verbatim>\<open>null\<close>.
\<close>

theorem fetch_failure_safe_default:
  "((\<forall>kv \<in> set (case filters of None \<Rightarrow> [] | Some f \<Rightarrow> f). \<exists>s. str (snd kv) = Inr s) \<longrightarrow>
      (\<exists>req. articles_request str loc filters srt pageSize = Inr req)) \<and>
   (articles_request str loc filters srt pageSize = Inr areq \<longrightarrow>
      (\<exists>r. fetchArticles fetch str loc filters srt pageSize = Inr r)) \<and>
   (\<exists>v. fetchArticle fetch slug loc = Inr v) \<and>
   (\<exists>r. fetchCategories fetch loc = Inr r) \<and>
   (articles_request str loc filters srt pageSize = Inr areq \<and>
    (fetch areq = Rejected \<or> (\<exists>status body. fetch areq = Response False status body) \<or>
     (\<exists>status. fetch areq = Response True status None)) \<longrightarrow>
      fetchArticles fetch str loc filters srt pageSize = Inr \<lparr>r_data = [], r_meta = Some (JObj [])\<rparr>) \<and>
   (fetch (article_request slug loc) = Rejected \<or>
    (\<exists>status body. fetch (article_request slug loc) = Response False status body) \<or>
    (\<exists>status. fetch (article_request slug loc) = Response True status None) \<longrightarrow>
      fetchArticle fetch slug loc = Inr JNull) \<and>
   (fetch (categories_request loc) = Rejected \<or>
    (\<exists>status body. fetch (categories_request loc) = Response False status body) \<or>
    (\<exists>status. fetch (categories_request loc) = Response True status None) \<longrightarrow>
      fetchCategories fetch loc = Inr \<lparr>r_data = [], r_meta = None\<rparr>) \<and>
   (articles_request str loc filters srt pageSize = Inr areq \<and>
    fetch areq = Response True st (Some json) \<and>
    as_array (n_data (normalizeResponse json)) = [] \<longrightarrow>
      fetchArticles fetch str loc filters srt pageSize =
        Inr \<lparr>r_data = [], r_meta = Some (member json (of_ascii ''meta''))\<rparr> \<and>
      (fetchArticles fetch str loc filters srt pageSize = Inr \<lparr>r_data = [], r_meta = Some (JObj [])\<rparr>)
        = (member json (of_ascii ''meta'') = JObj [])) \<and>
   (fetch (article_request slug loc) = Response True st (Some json) \<and>
    as_array (n_data (normalizeResponse json)) = [] \<longrightarrow>
      fetchArticle fetch slug loc = Inr JNull) \<and>
   (fetch (categories_request loc) = Response True st (Some json) \<and>
    as_array (n_data (normalizeResponse json)) = [] \<longrightarrow>
      fetchCategories fetch loc =
        Inr \<lparr>r_data = [], r_meta = Some (member json (of_ascii ''meta''))\<rparr> \<and>
      fetchCategories fetch loc \<noteq> Inr \<lparr>r_data = [], r_meta = None\<rparr>)"
proof -
  have a: "(\<forall>kv \<in> set (case filters of None \<Rightarrow> [] | Some f \<Rightarrow> f). \<exists>s. str (snd kv) = Inr s) \<longrightarrow>
      (\<exists>req. articles_request str loc filters srt pageSize = Inr req)"
    using articles_request_total by blast
  have b: "articles_request str loc filters srt pageSize = Inr areq \<longrightarrow>
      (\<exists>r. fetchArticles fetch str loc filters srt pageSize = Inr r)"
    by (simp add: fetchArticles_def try_catch_def split: sum.split)
  have c: "\<exists>v. fetchArticle fetch slug loc = Inr v"
    by (simp add: fetchArticle_def try_catch_def split: sum.split)
  have d: "\<exists>r. fetchCategories fetch loc = Inr r"
    by (simp add: fetchCategories_def try_catch_def split: sum.split)
  have e: "articles_request str loc filters srt pageSize = Inr areq \<and>
    (fetch areq = Rejected \<or> (\<exists>status body. fetch areq = Response False status body) \<or>
     (\<exists>status. fetch areq = Response True status None)) \<longrightarrow>
      fetchArticles fetch str loc filters srt pageSize = Inr \<lparr>r_data = [], r_meta = Some (JObj [])\<rparr>"
    by (auto simp: fetchArticles_def fetch_normalized_def try_catch_def)
  have f: "fetch (article_request slug loc) = Rejected \<or>
    (\<exists>status body. fetch (article_request slug loc) = Response False status body) \<or>
    (\<exists>status. fetch (article_request slug loc) = Response True status None) \<longrightarrow>
      fetchArticle fetch slug loc = Inr JNull"
    by (auto simp: fetchArticle_def fetch_normalized_def try_catch_def)
  have g: "fetch (categories_request loc) = Rejected \<or>
    (\<exists>status body. fetch (categories_request loc) = Response False status body) \<or>
    (\<exists>status. fetch (categories_request loc) = Response True status None) \<longrightarrow>
      fetchCategories fetch loc = Inr \<lparr>r_data = [], r_meta = None\<rparr>"
    by (auto simp: fetchCategories_def fetch_normalized_def try_catch_def)
  have h: "articles_request str loc filters srt pageSize = Inr areq \<and>
    fetch areq = Response True st (Some json) \<and>
    as_array (n_data (normalizeResponse json)) = [] \<longrightarrow>
      fetchArticles fetch str loc filters srt pageSize =
        Inr \<lparr>r_data = [], r_meta = Some (member json (of_ascii ''meta''))\<rparr> \<and>
      (fetchArticles fetch str loc filters srt pageSize = Inr \<lparr>r_data = [], r_meta = Some (JObj [])\<rparr>)
        = (member json (of_ascii ''meta'') = JObj [])"
    by (auto simp: fetchArticles_def fetch_normalized_def try_catch_def n_meta_normalizeResponse)
  have i: "fetch (article_request slug loc) = Response True st (Some json) \<and>
    as_array (n_data (normalizeResponse json)) = [] \<longrightarrow>
      fetchArticle fetch slug loc = Inr JNull"
    by (simp add: fetchArticle_def fetch_normalized_def try_catch_def)
  have j: "fetch (categories_request loc) = Response True st (Some json) \<and>
    as_array (n_data (normalizeResponse json)) = [] \<longrightarrow>
      fetchCategories fetch loc =
        Inr \<lparr>r_data = [], r_meta = Some (member json (of_ascii ''meta''))\<rparr> \<and>
      fetchCategories fetch loc \<noteq> Inr \<lparr>r_data = [], r_meta = None\<rparr>"
    by (simp add: fetchCategories_def fetch_normalized_def try_catch_def n_meta_normalizeResponse)
  from a b c d e f g h i j show ?thesis by blast
qed

lemma featured_articles_request:
  "articles_request (\<lambda>v. Inr []) None (Some [(of_ascii ''featured'', JBool True)]) None None =
     Inr \<lparr>req_path = of_ascii ''/api/articles'',
          req_params =
            [(of_ascii ''locale'', of_ascii ''en''),
             (of_ascii ''sort'', of_ascii ''publishedAt:desc''),
             (of_ascii ''pagination[pageSize]'', dec 50)] @ populate_params @
            [(of_ascii ''filters[featured][$eq]'', of_ascii ''true'')]\<rparr>"
proof -
  have "of_ascii ''featured'' \<noteq> of_ascii ''category.slug''" by (simp add: of_ascii_def)
  moreover have "of_ascii ''filters['' @ of_ascii ''featured'' @ of_ascii ''][$eq]'' =
      of_ascii ''filters[featured][$eq]''"
    by (simp add: of_ascii_def)
  ultimately show ?thesis by (simp add: articles_request_def filter_param_def)
qed

theorem fetch_failure_safe_default_witness:
  "set [(of_ascii ''featured'', JBool True)] = {(of_ascii ''featured'', JBool True)} \<and>
   (\<lambda>v. Inr []) (JBool True) = (Inr [] :: fetch_error + jsstring) \<and>
   articles_request (\<lambda>v. Inr []) None (Some [(of_ascii ''featured'', JBool True)]) None None =
     Inr \<lparr>req_path = of_ascii ''/api/articles'',
          req_params =
            [(of_ascii ''locale'', of_ascii ''en''),
             (of_ascii ''sort'', of_ascii ''publishedAt:desc''),
             (of_ascii ''pagination[pageSize]'', dec 50)] @ populate_params @
            [(of_ascii ''filters[featured][$eq]'', of_ascii ''true'')]\<rparr> \<and>
   fetchArticles (\<lambda>req. Rejected) (\<lambda>v. Inr []) None (Some [(of_ascii ''featured'', JBool True)])
     None None = Inr \<lparr>r_data = [], r_meta = Some (JObj [])\<rparr> \<and>
   fetchArticle (\<lambda>req. Response False 500 None) (of_ascii ''hello'') None = Inr JNull \<and>
   fetchCategories (\<lambda>req. Rejected) None = Inr \<lparr>r_data = [], r_meta = None\<rparr> \<and>
   as_array (n_data (normalizeResponse (JObj [(of_ascii ''data'', JArr [])]))) = [] \<and>
   member (JObj [(of_ascii ''data'', JArr [])]) (of_ascii ''meta'') = JUndefined \<and>
   fetchArticles (\<lambda>req. Response True 200 (Some (JObj [(of_ascii ''data'', JArr [])])))
     (\<lambda>v. Inr []) None (Some [(of_ascii ''featured'', JBool True)]) None None =
     Inr \<lparr>r_data = [], r_meta = Some JUndefined\<rparr> \<and>
   fetchArticle (\<lambda>req. Response True 200 (Some (JObj [(of_ascii ''data'', JArr [])])))
     (of_ascii ''hello'') None = Inr JNull \<and>
   fetchCategories (\<lambda>req. Response True 200 (Some (JObj [(of_ascii ''data'', JArr [])]))) None =
     Inr \<lparr>r_data = [], r_meta = Some JUndefined\<rparr>"
proof -
  let ?areq = "\<lparr>req_path = of_ascii ''/api/articles'',
          req_params =
            [(of_ascii ''locale'', of_ascii ''en''),
             (of_ascii ''sort'', of_ascii ''publishedAt:desc''),
             (of_ascii ''pagination[pageSize]'', dec 50)] @ populate_params @
            [(of_ascii ''filters[featured][$eq]'', of_ascii ''true'')]\<rparr>"
  let ?filters = "Some [(of_ascii ''featured'', JBool True)]"
  let ?json = "JObj [(of_ascii ''data'', JArr [])]"
  have n: "as_array (n_data (normalizeResponse ?json)) = []"
    by (simp add: empty_response_no_meta as_array_def)
  have m: "member ?json (of_ascii ''meta'') = JUndefined"
    by (simp add: of_ascii_def)
  from fetch_failure_safe_default
         [where fetch = "\<lambda>req. Rejected" and str = "\<lambda>v. Inr []" and loc = None
            and filters = ?filters and srt = None and pageSize = None
            and slug = "of_ascii ''hello''" and areq = ?areq]
       fetch_failure_safe_default
         [where fetch = "\<lambda>req. Response False 500 None" and str = "\<lambda>v. Inr []" and loc = None
            and filters = ?filters and srt = None and pageSize = None
            and slug = "of_ascii ''hello''" and areq = ?areq]
       fetch_failure_safe_default
         [where fetch = "\<lambda>req. Response True 200 (Some ?json)" and str = "\<lambda>v. Inr []"
            and loc = None and filters = ?filters and srt = None and pageSize = None
            and slug = "of_ascii ''hello''" and areq = ?areq and st = 200 and json = ?json]
       featured_articles_request n m
  show ?thesis by simp
qed









section \<open>Properties of the response normalizer\<close>

lemma normalize_entity:
  assumes "typeof_object e" "has_in (of_ascii ''id'') e" "has_in (of_ascii ''attributes'') e"
  shows "normalize e = JObj (map (\<lambda>(key, v). (key, resolve_relation v)) (merge_entity e))"
proof -
  from assms have "truthy e" by (cases e) auto
  with assms show ?thesis
    by (subst normalize.simps) (simp add: resolve_relation_def cong: jsval.case_cong)
qed

lemma normalize_other:
  assumes "truthy v" "\<not> (typeof_object v \<and> has_in (of_ascii ''id'') v \<and> has_in (of_ascii ''attributes'') v)"
  shows "normalize v = v"
  using assms by (subst normalize.simps) auto

lemma normalize_falsy: "\<not> truthy v \<Longrightarrow> normalize v = JNull"
  by (subst normalize.simps) simp

text \<open>
  Claim C4. In an entity (a value carrying \<^verbatim>\<open>id\<close> and \<^verbatim>\<open>attributes\<close>), every property of
  the merged object \<^verbatim>\<open>{ id, ...attributes }\<close> whose value is a relation wrapper (an
  object with a \<^verbatim>\<open>data\<close> property) is replaced by \<^verbatim>\<open>null\<close> when the payload is
  \<^verbatim>\<open>null\<close>, by the sequence of the normalized elements, in their order, when the payload
  is a sequence, and by the normalized payload otherwise. The witness is an entity
  with a relation of three sub-entities.
\<close>

theorem normalize_relation_field:
  assumes "typeof_object entity" "has_in (of_ascii ''id'') entity"
      "has_in (of_ascii ''attributes'') entity"
    and "map_of (merge_entity entity) key = Some v"
    and "truthy v" "typeof_object v" "has_in (of_ascii ''data'') v"
  shows "member (normalize entity) key =
           (case member v (of_ascii ''data'') of
              JNull \<Rightarrow> JNull
            | JArr rel \<Rightarrow> JArr (map normalize rel)
            | rel \<Rightarrow> normalize rel)"
proof -
  have "member (normalize entity) key = resolve_relation v"
    using assms(4) by (simp add: normalize_entity [OF assms(1-3)] map_of_map)
  with assms(5-7) show ?thesis by (simp add: resolve_relation_def)
qed

lemma map_of_foldl_update:
  "map_of (foldl (\<lambda>obj (k, v). AList.update k v obj) acc es) =
     map_of acc ++ map_of (rev es)"
proof (induction es arbitrary: acc)
  case Nil
  show ?case by simp
next
  case (Cons e es)
  obtain k v where e: "e = (k, v)" by (cases e)
  show ?case
    by (simp add: e Cons.IH update_conv' map_add_upd_left fun_eq_iff map_add_def
          split: option.split)
qed

lemma map_of_rev_distinct:
  "distinct (map fst es) \<Longrightarrow> map_of (rev es) = map_of es"
proof (induction es)
  case Nil
  show ?case by simp
next
  case (Cons e es)
  obtain k v where e: "e = (k, v)" by (cases e)
  from Cons.prems e have k: "k \<notin> fst ` set es" and d: "distinct (map fst es)" by auto
  from k have "map_of es k = None" by (simp add: map_of_eq_None_iff)
  with Cons.IH [OF d] show ?case
    by (auto simp: e fun_eq_iff map_add_def split: option.split)
qed

lemma map_of_object_literal: "map_of (object_literal es) = map_of (rev es)"
  by (simp add: object_literal_def map_of_foldl_update)

lemma merge_entity_attribute:
  assumes "member entity (of_ascii ''attributes'') = JObj attrs"
    and "distinct (map fst attrs)" and "map_of attrs key = Some v"
  shows "map_of (merge_entity entity) key = Some v"
proof -
  have "map_of (rev attrs) key = Some v"
    using assms(2,3) by (simp add: map_of_rev_distinct)
  then show ?thesis
    by (simp add: merge_entity_def map_of_object_literal nullish_def assms(1) map_add_def)
qed

lemma sub_entity:
  "normalize (JObj [(of_ascii ''id'', JNum n), (of_ascii ''attributes'', JObj [(of_ascii ''name'', JStr s)])])
     = JObj [(of_ascii ''id'', JNum n), (of_ascii ''name'', JStr s)]"
  by (simp add: normalize_entity merge_entity_def object_literal_def nullish_def resolve_relation_def)
     (simp add: of_ascii_def)


theorem normalize_relation_field_witness:
  "member
     (normalize
       (JObj [(of_ascii ''id'', JNum 1),
              (of_ascii ''attributes'',
               JObj [(of_ascii ''title'', JStr (of_ascii ''Tea'')),
                     (of_ascii ''tags'',
                      JObj [(of_ascii ''data'',
                             JArr [JObj [(of_ascii ''id'', JNum 7),
                                         (of_ascii ''attributes'', JObj [(of_ascii ''name'', JStr (of_ascii ''a''))])],
                                   JObj [(of_ascii ''id'', JNum 8),
                                         (of_ascii ''attributes'', JObj [(of_ascii ''name'', JStr (of_ascii ''b''))])],
                                   JObj [(of_ascii ''id'', JNum 9),
                                         (of_ascii ''attributes'', JObj [(of_ascii ''name'', JStr (of_ascii ''c''))])]])]),
                     (of_ascii ''cover'', JObj [(of_ascii ''data'', JNull)])])]))
     (of_ascii ''tags'')
   = JArr [JObj [(of_ascii ''id'', JNum 7), (of_ascii ''name'', JStr (of_ascii ''a''))],
           JObj [(of_ascii ''id'', JNum 8), (of_ascii ''name'', JStr (of_ascii ''b''))],
           JObj [(of_ascii ''id'', JNum 9), (of_ascii ''name'', JStr (of_ascii ''c''))]]"
  (is "member (normalize ?e) ?k = ?r")
proof -
  let ?subs = "JArr [JObj [(of_ascii ''id'', JNum 7),
                           (of_ascii ''attributes'', JObj [(of_ascii ''name'', JStr (of_ascii ''a''))])],
                     JObj [(of_ascii ''id'', JNum 8),
                           (of_ascii ''attributes'', JObj [(of_ascii ''name'', JStr (of_ascii ''b''))])],
                     JObj [(of_ascii ''id'', JNum 9),
                           (of_ascii ''attributes'', JObj [(of_ascii ''name'', JStr (of_ascii ''c''))])]]"
  let ?v = "JObj [(of_ascii ''data'', ?subs)]"
  have e: "typeof_object ?e" "has_in (of_ascii ''id'') ?e" "has_in (of_ascii ''attributes'') ?e"
    by simp_all
  have m: "map_of (merge_entity ?e) ?k = Some ?v"
    by (rule merge_entity_attribute [where attrs = "[(of_ascii ''title'', JStr (of_ascii ''Tea'')),
            (of_ascii ''tags'', ?v), (of_ascii ''cover'', JObj [(of_ascii ''data'', JNull)])]"])
       (simp_all add: of_ascii_def)
  have v: "truthy ?v" "typeof_object ?v" "has_in (of_ascii ''data'') ?v"
    by simp_all
  have d: "member ?v (of_ascii ''data'') = ?subs" by simp
  from normalize_relation_field [OF e m v] show ?thesis
    unfolding d by (simp add: sub_entity)
qed

lemma attributes_not_index: "of_ascii ''attributes'' \<notin> set (index_keys n)"
proof
  assume "of_ascii ''attributes'' \<in> set (index_keys n)"
  then obtain i where "of_ascii ''attributes'' = dec i" by (auto simp: index_keys_def)
  then have "97 \<in> set (dec i)" by (auto simp: of_ascii_def dest: sym)
  then show False using dec_digits [of 97 i] by simp
qed

lemma own_entries_keys:
  "k \<in> fst ` set (own_entries a) \<Longrightarrow> has_in k a \<or> k \<in> set (index_keys (length (own_entries a)))"
proof (cases a)
  case (JArr xs)
  assume "k \<in> fst ` set (own_entries a)"
  with JArr show ?thesis by (auto simp: index_keys_def dest!: set_zip_leftD)
next
  case (JStr s)
  assume "k \<in> fst ` set (own_entries a)"
  with JStr show ?thesis by (auto simp: index_keys_def dest!: set_zip_leftD)
qed auto

lemma normalize_not_entity_shaped:
  assumes "\<not> has_in (of_ascii ''attributes'') (nullish (member x (of_ascii ''attributes'')) (JObj []))"
  shows "\<not> has_in (of_ascii ''attributes'') (JObj (map (\<lambda>(key, v). (key, f v)) (merge_entity x)))"
proof
  let ?a = "nullish (member x (of_ascii ''attributes'')) (JObj [])"
  assume "has_in (of_ascii ''attributes'') (JObj (map (\<lambda>(key, v). (key, f v)) (merge_entity x)))"
  then have "of_ascii ''attributes'' \<in> fst ` set (merge_entity x)" by force
  then have "of_ascii ''attributes'' \<in> fst ` set ((of_ascii ''id'', member x (of_ascii ''id'')) # own_entries ?a)"
    unfolding merge_entity_def using set_object_literal by blast
  moreover have "of_ascii ''attributes'' \<noteq> of_ascii ''id''" by (simp add: of_ascii_def)
  ultimately have "of_ascii ''attributes'' \<in> fst ` set (own_entries ?a)" by auto
  then show False using own_entries_keys assms attributes_not_index by blast
qed

text \<open>
  Claim C2, as stated, fails: an entity whose attributes have a property named
  \<^verbatim>\<open>attributes\<close> normalizes to an object that again carries \<^verbatim>\<open>id\<close> and \<^verbatim>\<open>attributes\<close>,
  and a second \<^verbatim>\<open>normalize\<close> flattens it once more.
\<close>

theorem normalize_not_idempotent:
  "normalize (normalize (JObj [(of_ascii ''id'', JNum 1),
       (of_ascii ''attributes'', JObj [(of_ascii ''attributes'', JObj [])])]))
   \<noteq> normalize (JObj [(of_ascii ''id'', JNum 1),
       (of_ascii ''attributes'', JObj [(of_ascii ''attributes'', JObj [])])]) \<and>
   normalize (JObj [(of_ascii ''id'', JNum 1),
       (of_ascii ''attributes'', JObj [(of_ascii ''attributes'', JObj [])])])
   = JObj [(of_ascii ''id'', JNum 1), (of_ascii ''attributes'', JObj [])] \<and>
   normalize (JObj [(of_ascii ''id'', JNum 1), (of_ascii ''attributes'', JObj [])])
   = JObj [(of_ascii ''id'', JNum 1)]"
proof -
  have a: "normalize (JObj [(of_ascii ''id'', JNum 1),
       (of_ascii ''attributes'', JObj [(of_ascii ''attributes'', JObj [])])])
   = JObj [(of_ascii ''id'', JNum 1), (of_ascii ''attributes'', JObj [])]"
    by (simp add: normalize_entity merge_entity_def object_literal_def nullish_def resolve_relation_def)
       (simp add: of_ascii_def)
  have b: "normalize (JObj [(of_ascii ''id'', JNum 1), (of_ascii ''attributes'', JObj [])])
   = JObj [(of_ascii ''id'', JNum 1)]"
    by (simp add: normalize_entity merge_entity_def object_literal_def nullish_def resolve_relation_def)
  show ?thesis unfolding a b by simp
qed

text \<open>
  Claim C2, amended. \<^verbatim>\<open>normalize\<close> returns unchanged every truthy value that does not
  carry both \<^verbatim>\<open>id\<close> and \<^verbatim>\<open>attributes\<close>; and \<^verbatim>\<open>normalize(normalize(x)) = normalize(x)\<close>
  whenever the attributes of \<open>x\<close> have no property named \<^verbatim>\<open>attributes\<close>.
\<close>

theorem normalize_flat_unchanged:
  "(truthy v \<and> \<not> (typeof_object v \<and> has_in (of_ascii ''id'') v \<and> has_in (of_ascii ''attributes'') v)
      \<longrightarrow> normalize v = v) \<and>
   (\<not> has_in (of_ascii ''attributes'') (nullish (member x (of_ascii ''attributes'')) (JObj []))
      \<longrightarrow> normalize (normalize x) = normalize x)"
proof (intro conjI impI)
  assume "truthy v \<and> \<not> (typeof_object v \<and> has_in (of_ascii ''id'') v \<and> has_in (of_ascii ''attributes'') v)"
  then show "normalize v = v" by (simp add: normalize_other)
next
  assume a: "\<not> has_in (of_ascii ''attributes'') (nullish (member x (of_ascii ''attributes'')) (JObj []))"
  show "normalize (normalize x) = normalize x"
  proof (cases "truthy x")
    case False
    then show ?thesis by (simp add: normalize_falsy)
  next
    case True
    show ?thesis
    proof (cases "typeof_object x \<and> has_in (of_ascii ''id'') x \<and> has_in (of_ascii ''attributes'') x")
      case False
      with True show ?thesis by (simp add: normalize_other)
    next
      case ent: True
      then have n: "normalize x = JObj (map (\<lambda>(key, v). (key, resolve_relation v)) (merge_entity x))"
        by (simp add: normalize_entity)
      have "\<not> has_in (of_ascii ''attributes'') (normalize x)"
        unfolding n using a by (rule normalize_not_entity_shaped)
      moreover have "truthy (normalize x)" by (simp add: n)
      ultimately show ?thesis by (simp add: normalize_other)
    qed
  qed
qed

theorem normalize_flat_unchanged_witness:
  "normalize (JObj [(of_ascii ''id'', JNum 1), (of_ascii ''title'', JStr (of_ascii ''Tea''))])
     = JObj [(of_ascii ''id'', JNum 1), (of_ascii ''title'', JStr (of_ascii ''Tea''))] \<and>
   normalize (normalize (JObj [(of_ascii ''id'', JNum 1),
       (of_ascii ''attributes'', JObj [(of_ascii ''title'', JStr (of_ascii ''Tea''))])]))
   = normalize (JObj [(of_ascii ''id'', JNum 1),
       (of_ascii ''attributes'', JObj [(of_ascii ''title'', JStr (of_ascii ''Tea''))])])"
proof -
  have k: "of_ascii ''attributes'' \<noteq> of_ascii ''title''" "of_ascii ''attributes'' \<noteq> of_ascii ''id''"
    by (simp_all add: of_ascii_def)
  from normalize_flat_unchanged
         [of "JObj [(of_ascii ''id'', JNum 1), (of_ascii ''title'', JStr (of_ascii ''Tea''))]"
             "JObj [(of_ascii ''id'', JNum 1),
                (of_ascii ''attributes'', JObj [(of_ascii ''title'', JStr (of_ascii ''Tea''))])]"]
  show ?thesis using k by (simp add: nullish_def)
qed

section \<open>Properties of the heading slugs\<close>

lemma push_headings_length: "length (push_headings lc seen ms) = length ms"
  by (induction ms arbitrary: seen) (auto simp: Let_def split: prod.split)

lemma push_headings_texts:
  "map h_text (push_headings lc seen ms) = map (\<lambda>m. heading_text (snd m)) ms"
  by (induction ms arbitrary: seen) (auto simp: Let_def split: prod.split)

lemma count_by_text:
  assumes "map f xs = map g ys"
  shows "length (filter (\<lambda>x. P (f x)) (take n xs)) = length (filter (\<lambda>y. P (g y)) (take n ys))"
proof -
  have "length (filter (\<lambda>x. P (f x)) (take n xs)) = length (filter P (map f (take n xs)))"
    by (simp add: filter_map comp_def)
  also have "map f (take n xs) = map g (take n ys)"
    using assms by (simp add: take_map [symmetric])
  also have "length (filter P (map g (take n ys))) = length (filter (\<lambda>y. P (g y)) (take n ys))"
    by (simp add: filter_map comp_def)
  finally show ?thesis .
qed

lemma push_headings_id:
  "i < length ms \<Longrightarrow>
   h_id (push_headings lc seen ms ! i) =
     (let b = slug_of lc (heading_text (snd (ms ! i)));
          n = (case seen b of None \<Rightarrow> 0 | Some c \<Rightarrow> c) +
              length (filter (\<lambda>m. slug_of lc (heading_text (snd m)) = b) (take (Suc i) ms))
      in if n = 1 then b else b @ [45] @ dec n)"
proof (induction ms arbitrary: seen i)
  case Nil
  then show ?case by simp
next
  case (Cons m ms)
  obtain k g where m: "m = (k, g)" by (cases m)
  define b0 where "b0 = slug_of lc (heading_text g)"
  define c0 where "c0 = (case seen b0 of None \<Rightarrow> 0 | Some c \<Rightarrow> c)"
  define seen' where "seen' = seen(b0 \<mapsto> c0 + 1)"
  show ?case
  proof (cases i)
    case 0
    then show ?thesis by (simp add: m Let_def slugify_def)
  next
    case (Suc j)
    with Cons.prems have j: "j < length ms" by simp
    define b where "b = slug_of lc (heading_text (snd (ms ! j)))"
    define x where "x = length (filter (\<lambda>m. slug_of lc (heading_text (snd m)) = b) (take (Suc j) ms))"
    have step: "push_headings lc seen (m # ms) ! i = push_headings lc seen' ms ! j"
      by (simp add: m Suc Let_def slugify_def seen'_def c0_def b0_def)
    have ih: "h_id (push_headings lc seen' ms ! j) =
        (if (case seen' b of None \<Rightarrow> 0 | Some c \<Rightarrow> c) + x = 1 then b
         else b @ [45] @ dec ((case seen' b of None \<Rightarrow> 0 | Some c \<Rightarrow> c) + x))"
      using Cons.IH [OF j, of seen'] by (simp add: Let_def b_def x_def)
    have cnt: "(case seen' b of None \<Rightarrow> 0 | Some c \<Rightarrow> c) =
        (case seen b of None \<Rightarrow> 0 | Some c \<Rightarrow> c) + (if b0 = b then 1 else 0)"
      by (simp add: seen'_def c0_def)
    have flt: "length (filter (\<lambda>m. slug_of lc (heading_text (snd m)) = b) (take (Suc i) (m # ms)))
        = (if b0 = b then 1 else 0) + x"
      by (simp add: Suc m x_def b0_def)
    have "(m # ms) ! i = ms ! j" by (simp add: Suc)
    then show ?thesis
      unfolding step ih cnt Let_def
      using flt by (simp add: b_def)
  qed
qed

text \<open>
  The id of the heading at index \<open>i\<close>: with \<open>b\<close> the slug of its text and \<open>n\<close> the
  number of headings up to and including it whose text has the slug \<open>b\<close>, the id is
  \<open>b\<close> when \<open>n = 1\<close> and \<open>b\<close> with \<^verbatim>\<open>-n\<close> appended otherwise.
\<close>

lemma extractHeadings_id:
  "(i < length (extractHeadings lc markdown) \<longrightarrow>
      (let hs = extractHeadings lc markdown;
           b = slug_of lc (h_text (hs ! i));
           n = length (filter (\<lambda>h. slug_of lc (h_text h) = b) (take (Suc i) hs))
       in h_id (hs ! i) = (if n = 1 then b else b @ [45] @ dec n)))"
proof
  assume i: "i < length (extractHeadings lc markdown)"
  then have ne: "markdown \<noteq> []" by (auto simp: extractHeadings_def)
  define ms where "ms = exec_all True 0 markdown"
  define hs where "hs = push_headings lc Map.empty ms"
  have eh: "extractHeadings lc markdown = hs"
    using ne by (simp add: extractHeadings_def ms_def hs_def)
  from i have i': "i < length ms" by (simp add: eh hs_def push_headings_length)
  have texts: "map h_text hs = map (\<lambda>m. heading_text (snd m)) ms"
    unfolding hs_def by (rule push_headings_texts)
  have "h_text (hs ! i) = map h_text hs ! i"
    using i' by (simp add: hs_def push_headings_length)
  then have ti: "h_text (hs ! i) = heading_text (snd (ms ! i))"
    using i' by (simp add: texts)
  have cnt: "length (filter (\<lambda>h. slug_of lc (h_text h) = b) (take (Suc i) hs)) =
             length (filter (\<lambda>m. slug_of lc (heading_text (snd m)) = b) (take (Suc i) ms))" for b
    using texts by (rule count_by_text [where P = "\<lambda>t. slug_of lc t = b"])
  have "h_id (hs ! i) =
     (let b = slug_of lc (heading_text (snd (ms ! i)));
          n = (case Map.empty b of None \<Rightarrow> 0 | Some c \<Rightarrow> c) +
              length (filter (\<lambda>m. slug_of lc (heading_text (snd m)) = b) (take (Suc i) ms))
      in if n = 1 then b else b @ [45] @ dec n)"
    unfolding hs_def using i' by (rule push_headings_id)
  then show "(let hs = extractHeadings lc markdown;
           b = slug_of lc (h_text (hs ! i));
           n = length (filter (\<lambda>h. slug_of lc (h_text h) = b) (take (Suc i) hs))
       in h_id (hs ! i) = (if n = 1 then b else b @ [45] @ dec n))"
    unfolding eh by (simp add: Let_def ti cnt)
qed

lemmas text_defs = heading_text_def replaceAll_def span_match_def bold_match_def italic_match_def
  code_match_def link_match_def tag_match_def trim_def trimStart_def trimEnd_def is_ws_def is_lt_def

lemmas slug_defs = slug_of_def slug_base_def replaceAll_def run_match_def strip_edge_hyphens_def
  trim_def trimStart_def trimEnd_def asciiLower_def is_ws_def is_word_def slug_keep_def

lemma intro_text: "heading_text (of_ascii ''Intro'') = of_ascii ''Intro''"
  by (simp add: of_ascii_def text_defs)

lemma intro_slug: "slug_of asciiLower (of_ascii ''Intro'') = of_ascii ''intro''"
  by (simp add: of_ascii_def slug_defs)

lemma intro2_text: "heading_text (of_ascii ''Intro 2'') = of_ascii ''Intro 2''"
  by (simp add: of_ascii_def text_defs)

lemma intro2_slug: "slug_of asciiLower (of_ascii ''Intro 2'') = of_ascii ''intro-2''"
  by (simp add: of_ascii_def slug_defs)

lemma three_intros:
  "exec_all True 0 (of_ascii ''# Intro\<newline>## Intro\<newline>## Intro'') =
     [(1, of_ascii ''Intro''), (2, of_ascii ''Intro''), (2, of_ascii ''Intro'')]"
  by (simp add: of_ascii_def heading_at_def is_ws_def is_lt_def)

lemma intros_and_intro2:
  "exec_all True 0 (of_ascii ''# Intro\<newline>## Intro\<newline>## Intro 2'') =
     [(1, of_ascii ''Intro''), (2, of_ascii ''Intro''), (2, of_ascii ''Intro 2'')]"
  by (simp add: of_ascii_def heading_at_def is_ws_def is_lt_def)

lemma slugify_known:
  "slug_of lc txt = b \<Longrightarrow>
   slugify lc seen txt =
     (if (case seen b of None \<Rightarrow> 0 | Some n \<Rightarrow> n) = 0 then b
      else b @ [45] @ dec ((case seen b of None \<Rightarrow> 0 | Some n \<Rightarrow> n) + 1),
      seen(b \<mapsto> (case seen b of None \<Rightarrow> 0 | Some n \<Rightarrow> n) + 1))"
  by (simp add: slugify_def Let_def)

lemma ascii_neq: "of_ascii ''intro'' \<noteq> of_ascii ''intro-2''"
  by (simp add: of_ascii_def)

lemma dec_small: "dec (Suc (Suc 0)) = [50]" "dec (Suc (Suc (Suc 0))) = [51]"
  by (simp_all add: dec.simps)

lemma three_intros_headings:
  "extractHeadings asciiLower (of_ascii ''# Intro\<newline>## Intro\<newline>## Intro'') =
     [\<lparr>h_level = 1, h_text = of_ascii ''Intro'', h_id = of_ascii ''intro''\<rparr>,
      \<lparr>h_level = 2, h_text = of_ascii ''Intro'', h_id = of_ascii ''intro-2''\<rparr>,
      \<lparr>h_level = 2, h_text = of_ascii ''Intro'', h_id = of_ascii ''intro-3''\<rparr>]"
proof -
  have "of_ascii ''# Intro\<newline>## Intro\<newline>## Intro'' \<noteq> []" by (simp add: of_ascii_def)
  then show ?thesis
    by (simp add: extractHeadings_def three_intros intro_text slugify_known [OF intro_slug] dec_small)
       (simp add: of_ascii_def Let_def dec_small)
qed

lemma intro2_headings:
  "extractHeadings asciiLower (of_ascii ''# Intro\<newline>## Intro\<newline>## Intro 2'') =
     [\<lparr>h_level = 1, h_text = of_ascii ''Intro'', h_id = of_ascii ''intro''\<rparr>,
      \<lparr>h_level = 2, h_text = of_ascii ''Intro'', h_id = of_ascii ''intro-2''\<rparr>,
      \<lparr>h_level = 2, h_text = of_ascii ''Intro 2'', h_id = of_ascii ''intro-2''\<rparr>]"
proof -
  have "of_ascii ''# Intro\<newline>## Intro\<newline>## Intro 2'' \<noteq> []" by (simp add: of_ascii_def)
  then show ?thesis
    by (simp add: extractHeadings_def intros_and_intro2 intro_text intro2_text
          slugify_known [OF intro_slug] slugify_known [OF intro2_slug] dec_small ascii_neq)
       (simp add: of_ascii_def Let_def dec_small)
qed

text \<open>
  Claim C3. The first occurrence of a base slug keeps the slug unmodified, and the
  \<open>n\<close>-th occurrence (\<open>n \<ge> 2\<close>) of the same base slug gets the slug with \<^verbatim>\<open>-n\<close>
  appended; for the document \<^verbatim>\<open># Intro\<close>, \<^verbatim>\<open>## Intro\<close>, \<^verbatim>\<open>## Intro\<close> (three lines) heading
  extraction yields the ids \<^verbatim>\<open>intro\<close>, \<^verbatim>\<open>intro-2\<close>, \<^verbatim>\<open>intro-3\<close> in that order.
\<close>

theorem heading_ids_numbered:
  "(i < length (extractHeadings lc markdown) \<longrightarrow>
      (let hs = extractHeadings lc markdown;
           b = slug_of lc (h_text (hs ! i));
           n = length (filter (\<lambda>h. slug_of lc (h_text h) = b) (take (Suc i) hs))
       in h_id (hs ! i) = (if n = 1 then b else b @ [45] @ dec n))) \<and>
   map h_id (extractHeadings asciiLower (of_ascii ''# Intro\<newline>## Intro\<newline>## Intro'')) =
     [of_ascii ''intro'', of_ascii ''intro-2'', of_ascii ''intro-3'']"
  using extractHeadings_id [of i lc markdown] by (simp add: three_intros_headings)

theorem heading_ids_numbered_witness:
  "2 < length (extractHeadings asciiLower (of_ascii ''# Intro\<newline>## Intro\<newline>## Intro'')) \<and>
   slug_of asciiLower
     (h_text (extractHeadings asciiLower (of_ascii ''# Intro\<newline>## Intro\<newline>## Intro'') ! 2)) =
     of_ascii ''intro'' \<and>
   length (filter (\<lambda>h. slug_of asciiLower (h_text h) = of_ascii ''intro'')
      (take 3 (extractHeadings asciiLower (of_ascii ''# Intro\<newline>## Intro\<newline>## Intro'')))) = 3 \<and>
   h_id (extractHeadings asciiLower (of_ascii ''# Intro\<newline>## Intro\<newline>## Intro'') ! 2) =
     of_ascii ''intro'' @ [45] @ dec 3"
  using heading_ids_numbered [of 2 asciiLower "of_ascii ''# Intro\<newline>## Intro\<newline>## Intro''"]
  by (simp add: three_intros_headings intro_slug Let_def dec.simps)

text \<open>
  Claim C1 says that the heading ids of one document are pairwise distinct. The code
  breaks it: a slug that ends in the suffix of a repetition collides with it. For the
  document \<^verbatim>\<open># Intro\<close>, \<^verbatim>\<open>## Intro\<close>, \<^verbatim>\<open>## Intro 2\<close> (three lines) heading extraction
  returns the id \<^verbatim>\<open>intro-2\<close> twice, and the renderer, called with the same three
  heading texts from a fresh registry, writes the id \<^verbatim>\<open>intro-2\<close> twice as well.
\<close>

theorem heading_ids_collide:
  "map h_id (extractHeadings asciiLower (of_ascii ''# Intro\<newline>## Intro\<newline>## Intro 2'')) =
     [of_ascii ''intro'', of_ascii ''intro-2'', of_ascii ''intro-2''] \<and>
   \<not> distinct (map h_id (extractHeadings asciiLower (of_ascii ''# Intro\<newline>## Intro\<newline>## Intro 2''))) \<and>
   (case renderer_heading asciiLower Map.empty (Some 1) (Some (of_ascii ''Intro'')) of
      (h1, seen1) \<Rightarrow>
        (case renderer_heading asciiLower seen1 (Some 2) (Some (of_ascii ''Intro'')) of
           (h2, seen2) \<Rightarrow>
             (case renderer_heading asciiLower seen2 (Some 2) (Some (of_ascii ''Intro 2'')) of
                (h3, seen3) \<Rightarrow>
                  h2 = of_ascii ''<h2 id='' @ [34] @ of_ascii ''intro-2'' @ [34] @ of_ascii ''>Intro</h2>'' \<and>
                  h3 = of_ascii ''<h2 id='' @ [34] @ of_ascii ''intro-2'' @ [34] @ of_ascii ''>Intro 2</h2>'')))"
proof -
  have r: "renderer_heading asciiLower seen (Some 2) (Some s) =
      (of_ascii ''<h2 id='' @ [34] @ fst (slugify asciiLower seen s) @ [34] @ of_ascii ''>'' @ s @
       of_ascii ''</h2>'', snd (slugify asciiLower seen s))" for seen s
    by (simp add: renderer_heading_def Let_def dec.simps split: prod.split) (simp add: of_ascii_def)
  have r1: "snd (renderer_heading asciiLower Map.empty (Some 1) (Some (of_ascii ''Intro''))) =
      [of_ascii ''intro'' \<mapsto> 1]"
    by (simp add: renderer_heading_def Let_def slugify_known [OF intro_slug] split: prod.split)
  have "map h_id (extractHeadings asciiLower (of_ascii ''# Intro\<newline>## Intro\<newline>## Intro 2'')) =
     [of_ascii ''intro'', of_ascii ''intro-2'', of_ascii ''intro-2'']"
    by (simp add: intro2_headings)
  moreover have "\<not> distinct [of_ascii ''intro'', of_ascii ''intro-2'', of_ascii ''intro-2'']"
    by simp
  moreover have "(case renderer_heading asciiLower Map.empty (Some 1) (Some (of_ascii ''Intro'')) of
      (h1, seen1) \<Rightarrow>
        (case renderer_heading asciiLower seen1 (Some 2) (Some (of_ascii ''Intro'')) of
           (h2, seen2) \<Rightarrow>
             (case renderer_heading asciiLower seen2 (Some 2) (Some (of_ascii ''Intro 2'')) of
                (h3, seen3) \<Rightarrow>
                  h2 = of_ascii ''<h2 id='' @ [34] @ of_ascii ''intro-2'' @ [34] @ of_ascii ''>Intro</h2>'' \<and>
                  h3 = of_ascii ''<h2 id='' @ [34] @ of_ascii ''intro-2'' @ [34] @ of_ascii ''>Intro 2</h2>'')))"
    using r1
    by (simp add: r split_beta slugify_known [OF intro_slug] slugify_known [OF intro2_slug]
          dec_small ascii_neq)
       (simp add: of_ascii_def)
  ultimately show ?thesis by simp
qed

section \<open>Properties of the reading time\<close>

lemma replace_from_skip: "replace_from m k s = replace_from m 0 (drop k s)"
proof (induction s arbitrary: k)
  case Nil
  show ?case by simp
next
  case (Cons c cs)
  show ?case
  proof (cases k)
    case 0
    then show ?thesis by simp
  next
    case (Suc j)
    then show ?thesis using Cons.IH [of j] by simp
  qed
qed

lemma split_from_skip: "split_from m acc k s = split_from m acc 0 (drop k s)"
proof (induction s arbitrary: k)
  case Nil
  show ?case by simp
next
  case (Cons c cs)
  show ?case
  proof (cases k)
    case 0
    then show ?thesis by simp
  next
    case (Suc j)
    then show ?thesis using Cons.IH [of j] by simp
  qed
qed

lemma run_match_Cons:
  "run_match P r (c # cs) =
     (if P c then Some (Suc (length (takeWhile P cs)), r) else None)"
  by (simp add: run_match_def)

lemma drop_takeWhile: "drop (length (takeWhile P xs)) xs = dropWhile P xs"
  by (induction xs) auto

lemma replace_run_step:
  "replace_from (run_match P r) 0 (c # cs) =
     (if P c then r @ replace_from (run_match P r) 0 (dropWhile P cs)
      else c # replace_from (run_match P r) 0 cs)"
  using replace_from_skip [of "run_match P r" "length (takeWhile P cs)" cs]
  by (simp add: run_match_Cons drop_takeWhile)

lemma split_run_step:
  "split_from (run_match P r) acc 0 (c # cs) =
     (if P c then rev acc # split_from (run_match P r) [] 0 (dropWhile P cs)
      else split_from (run_match P r) (c # acc) 0 cs)"
  using split_from_skip [of "run_match P r" "[]" "length (takeWhile P cs)" cs]
  by (simp add: run_match_Cons drop_takeWhile)

lemma filter_dropWhile: "filter (\<lambda>c. \<not> P c) (dropWhile P xs) = filter (\<lambda>c. \<not> P c) xs"
  by (induction xs) auto

lemma strip_runs_filter:
  "replace_from (run_match P []) 0 s = filter (\<lambda>c. \<not> P c) s"
proof (induction s rule: length_induct)
  case (1 s)
  show ?case
  proof (cases s)
    case Nil
    then show ?thesis by simp
  next
    case (Cons c cs)
    have "length (dropWhile P cs) < length s"
      using Cons length_dropWhile_le [of P cs] by simp
    with 1 have a: "replace_from (run_match P []) 0 (dropWhile P cs) = filter (\<lambda>c. \<not> P c) (dropWhile P cs)"
      by blast
    have b: "replace_from (run_match P []) 0 cs = filter (\<lambda>c. \<not> P c) cs"
      using 1 Cons by simp
    show ?thesis
      unfolding Cons replace_run_step by (simp add: a b filter_dropWhile)
  qed
qed

lemma count_dropWhile:
  "spec_word_count_from True (dropWhile is_ws s) = spec_word_count_from True s"
  by (induction s) auto

lemma count_ws_suffix:
  "\<forall>c \<in> set w. is_ws c \<Longrightarrow> spec_word_count_from b (u @ w) = spec_word_count_from b u"
proof (induction u arbitrary: b)
  case Nil
  then show ?case by (induction w arbitrary: b) auto
next
  case (Cons c u)
  then show ?case by simp
qed

lemma count_trim: "spec_word_count_from True (trim s) = spec_word_count_from True s"
proof -
  define u where "u = dropWhile is_ws s"
  have "rev (takeWhile is_ws (rev u) @ dropWhile is_ws (rev u)) = u"
    by (simp only: takeWhile_dropWhile_id rev_rev_ident)
  then have split: "rev (dropWhile is_ws (rev u)) @ rev (takeWhile is_ws (rev u)) = u"
    by (simp only: rev_append)
  have "\<forall>c \<in> set (rev (takeWhile is_ws (rev u))). is_ws c"
    by (auto dest: set_takeWhileD)
  then have "spec_word_count_from True (rev (dropWhile is_ws (rev u)) @ rev (takeWhile is_ws (rev u)))
      = spec_word_count_from True (rev (dropWhile is_ws (rev u)))"
    by (rule count_ws_suffix)
  then have "spec_word_count_from True u = spec_word_count_from True (trim s)"
    unfolding split by (simp add: trim_def trimEnd_def trimStart_def u_def)
  then show ?thesis by (simp add: count_dropWhile u_def)
qed

lemma split_words_count:
  "length (filter (\<lambda>w. w \<noteq> []) (split_from (run_match is_ws r) acc 0 s)) =
     (if acc = [] then spec_word_count_from True s else 1 + spec_word_count_from False s)"
proof (induction s arbitrary: acc rule: length_induct)
  case (1 s)
  show ?case
  proof (cases s)
    case Nil
    then show ?thesis by simp
  next
    case (Cons c cs)
    show ?thesis
    proof (cases "is_ws c")
      case True
      have "length (dropWhile is_ws cs) < length s"
        using Cons length_dropWhile_le [of is_ws cs] by simp
      with 1 have "length (filter (\<lambda>w. w \<noteq> []) (split_from (run_match is_ws r) [] 0 (dropWhile is_ws cs)))
          = spec_word_count_from True (dropWhile is_ws cs)"
        by simp
      then show ?thesis
        unfolding Cons split_run_step using True by (simp add: count_dropWhile)
    next
      case False
      have "length (filter (\<lambda>w. w \<noteq> []) (split_from (run_match is_ws r) (c # acc) 0 cs))
          = 1 + spec_word_count_from False cs"
        using 1 Cons by simp
      then show ?thesis
        unfolding Cons split_run_step using False by simp
    qed
  qed
qed

lemma words_refine:
  "length (filter (\<lambda>w. w \<noteq> []) (split_re (run_match is_ws []) (trim content))) =
     spec_word_count content"
  by (simp add: split_re_def split_words_count count_trim spec_word_count_def)

lemma ceil_div_ceiling:
  assumes "0 < d"
  shows "int (ceil_div n d) = \<lceil>real n / real d\<rceil>"
proof -
  define c where "c = (n + d - 1) div d"
  have "c * d \<le> n + d - 1" unfolding c_def by (rule div_times_less_eq_dividend)
  with assms have lo: "c * d < n + d" by linarith
  have "n + d - 1 < d + c * d"
    unfolding c_def using assms by (rule dividend_less_div_times)
  with assms have hi: "n \<le> c * d" by linarith
  from lo have "real (c * d) < real (n + d)" by (simp only: of_nat_less_iff)
  then have "(real c - 1) * real d < real n" by (simp add: algebra_simps)
  then have a: "real c - 1 < real n / real d" using assms by (simp add: pos_less_divide_eq)
  from hi have "real n \<le> real (c * d)" by (simp only: of_nat_le_iff)
  then have b: "real n / real d \<le> real c" using assms by (simp add: pos_divide_le_eq)
  have "\<lceil>real n / real d\<rceil> = int c"
    by (rule ceiling_unique) (use a b in simp_all)
  then show ?thesis by (simp add: ceil_div_def c_def)
qed

lemma count_repeat_word:
  "spec_word_count_from True (concat (replicate n (of_ascii ''word ''))) = n"
proof (induction n)
  case 0
  show ?case by simp
next
  case (Suc n)
  have "spec_word_count_from True (of_ascii ''word '' @ rest) = 1 + spec_word_count_from True rest"
    for rest
    by (simp add: of_ascii_def is_ws_def)
  with Suc show ?case by simp
qed

lemma reading_time_ja:
  "calculateReadingTime content (Some (of_ascii ''ja'')) =
     ceil_div (length (filter (\<lambda>c. \<not> is_ws c) content)) 400"
  by (simp add: calculateReadingTime_def replaceAll_def strip_runs_filter ceil_div_def)

lemma reading_time_words:
  "loc \<noteq> Some (of_ascii ''ja'') \<Longrightarrow>
   calculateReadingTime content loc = ceil_div (spec_word_count content) 200"
proof (cases loc)
  case None
  have "of_ascii ''en'' \<noteq> of_ascii ''ja''" by (simp add: of_ascii_def)
  with None show ?thesis
    by (simp add: calculateReadingTime_def words_refine ceil_div_def spec_word_count_def)
next
  case (Some l)
  assume "loc \<noteq> Some (of_ascii ''ja'')"
  with Some show ?thesis
    by (simp add: calculateReadingTime_def words_refine ceil_div_def spec_word_count_def)
qed

text \<open>
  Claim C8. \<^verbatim>\<open>calculateReadingTime\<close> returns 0 for the empty input; for the locale
  \<^verbatim>\<open>ja\<close> the number of code units that are no white space, divided by 400 and rounded
  up; for every other locale (and for an omitted one) the number of white-space
  delimited words, divided by 200 and rounded up. \<open>ceil_div\<close> is the ceiling of the
  quotient. \<^verbatim>\<open>"word ".repeat(200)\<close> under \<^verbatim>\<open>en\<close> gives 1, and a text of 401 code units
  without white space gives 2 under \<^verbatim>\<open>ja\<close>.
\<close>

theorem reading_time:
  "calculateReadingTime [] loc = 0 \<and>
   calculateReadingTime content (Some (of_ascii ''ja'')) =
     ceil_div (length (filter (\<lambda>c. \<not> is_ws c) content)) 400 \<and>
   (loc \<noteq> Some (of_ascii ''ja'') \<longrightarrow>
      calculateReadingTime content loc = ceil_div (spec_word_count content) 200) \<and>
   int (ceil_div n 400) = \<lceil>real n / 400\<rceil> \<and>
   int (ceil_div n 200) = \<lceil>real n / 200\<rceil> \<and>
   calculateReadingTime (concat (replicate 200 (of_ascii ''word ''))) (Some (of_ascii ''en'')) = 1 \<and>
   (length content = 401 \<and> (\<forall>c \<in> set content. \<not> is_ws c) \<longrightarrow>
      calculateReadingTime content (Some (of_ascii ''ja'')) = 2)"
proof -
  have a: "calculateReadingTime [] loc = 0"
    by (simp add: calculateReadingTime_def)
  have en: "Some (of_ascii ''en'') \<noteq> Some (of_ascii ''ja'')" by (simp add: of_ascii_def)
  have w: "calculateReadingTime (concat (replicate 200 (of_ascii ''word ''))) (Some (of_ascii ''en'')) = 1"
    by (simp add: reading_time_words [OF en] spec_word_count_def count_repeat_word ceil_div_def)
  have j: "calculateReadingTime content (Some (of_ascii ''ja'')) = 2"
    if "length content = 401" "\<forall>c \<in> set content. \<not> is_ws c"
  proof -
    from that(2) have "filter (\<lambda>c. \<not> is_ws c) content = content" by simp
    with that(1) show ?thesis by (simp add: reading_time_ja ceil_div_def)
  qed
  have c4: "int (ceil_div n 400) = \<lceil>real n / 400\<rceil>"
    using ceil_div_ceiling [of 400 n] by simp
  have c2: "int (ceil_div n 200) = \<lceil>real n / 200\<rceil>"
    using ceil_div_ceiling [of 200 n] by simp
  from a w j c4 c2 reading_time_ja [of content] reading_time_words [of loc content]
  show ?thesis by blast
qed

theorem reading_time_witness:
  "Some (of_ascii ''en'') \<noteq> Some (of_ascii ''ja'') \<and>
   spec_word_count (of_ascii ''a quiet  interface '') = 3 \<and>
   calculateReadingTime (of_ascii ''a quiet  interface '') (Some (of_ascii ''en'')) = 1 \<and>
   length (replicate 401 (12354::nat)) = 401 \<and>
   set (replicate 401 (12354::nat)) = {12354} \<and> \<not> is_ws 12354 \<and>
   calculateReadingTime (replicate 401 12354) (Some (of_ascii ''ja'')) = 2"
proof -
  have en: "Some (of_ascii ''en'') \<noteq> Some (of_ascii ''ja'')" by (simp add: of_ascii_def)
  have c: "spec_word_count (of_ascii ''a quiet  interface '') = 3"
    by (simp add: spec_word_count_def of_ascii_def is_ws_def)
  have s: "set (replicate 401 (12354::nat)) = {12354}" by simp
  have n: "\<not> is_ws 12354" by (simp add: is_ws_def)
  from reading_time [of "Some (of_ascii ''en'')" "of_ascii ''a quiet  interface ''"]
       reading_time [of None "replicate 401 12354"] en c s n
  show ?thesis by (simp add: ceil_div_def)
qed

section \<open>Properties of the excerpt\<close>

lemmas excerpt_defs = plainText_def replaceAll_def span_match_def bold_match_def italic_match_def
  code_match_def link_match_def tag_match_def hashes_match_def run_match_def
  trim_def trimStart_def trimEnd_def is_ws_def is_lt_def

lemma plainText_empty: "plainText [] = []"
  by (simp add: plainText_def replaceAll_def trim_def trimStart_def trimEnd_def)

lemma plainText_hello: "plainText (of_ascii ''hello world'') = of_ascii ''hello world''"
  by (simp add: of_ascii_def excerpt_defs)

lemma length_trimEnd: "length (trimEnd s) \<le> length s"
  using length_dropWhile_le [of is_ws "rev s"] by (simp add: trimEnd_def)

lemma last_trimEnd: "trimEnd s \<noteq> [] \<Longrightarrow> \<not> is_ws (last (trimEnd s))"
  using hd_dropWhile [of is_ws "rev s"] by (simp add: trimEnd_def last_rev)

text \<open>
  Claim C5, as stated, fails: the ellipsis marker is the three code units \<^verbatim>\<open>...\<close>, and
  the text is cut at the maximum length wherever that falls. For \<^verbatim>\<open>hello world\<close> and a
  maximum of 8 the excerpt is \<^verbatim>\<open>hello wo...\<close>: 11 code units, more than 8 + 1, cut
  inside a word.
\<close>

theorem excerpt_exceeds_bound:
  "generateExcerpt (of_ascii ''hello world'') (Some 8) = of_ascii ''hello wo...'' \<and>
   plainText (of_ascii ''hello world'') = of_ascii ''hello world'' \<and>
   \<not> length (generateExcerpt (of_ascii ''hello world'') (Some 8)) \<le> 8 + 1"
proof -
  have ne: "of_ascii ''hello world'' \<noteq> []" by (simp add: of_ascii_def)
  have "generateExcerpt (of_ascii ''hello world'') (Some 8) = of_ascii ''hello wo...''"
    using ne by (simp add: generateExcerpt_def plainText_hello)
       (simp add: of_ascii_def slice0_def trimEnd_def is_ws_def)
  then show ?thesis by (simp add: plainText_hello) (simp add: of_ascii_def)
qed

text \<open>
  Claim C5, amended. When the plain text is no longer than the maximum, \<^verbatim>\<open>generateExcerpt\<close>
  returns the plain text. When it is longer (for a maximum that is not negative), the
  result is the first \<open>m\<close> code units of the plain text with trailing white space
  trimmed, followed by \<^verbatim>\<open>...\<close>; it has at most \<open>m + 3\<close> code units, and the text before
  the marker does not end in white space. An omitted maximum is 160.
\<close>

theorem excerpt_truncation:
  "(int (length (plainText content)) \<le> m \<longrightarrow> generateExcerpt content (Some m) = plainText content) \<and>
   (0 \<le> m \<and> m < int (length (plainText content)) \<longrightarrow>
      generateExcerpt content (Some m) = trimEnd (take (nat m) (plainText content)) @ of_ascii ''...'' \<and>
      length (generateExcerpt content (Some m)) \<le> nat m + 3 \<and>
      (trimEnd (take (nat m) (plainText content)) = [] \<or>
       \<not> is_ws (last (trimEnd (take (nat m) (plainText content)))))) \<and>
   generateExcerpt content None = generateExcerpt content (Some 160)"
proof (intro conjI impI)
  assume "int (length (plainText content)) \<le> m"
  then show "generateExcerpt content (Some m) = plainText content"
    by (cases "content = []") (simp_all add: generateExcerpt_def plainText_empty)
next
  assume a: "0 \<le> m \<and> m < int (length (plainText content))"
  then have ne: "content \<noteq> []" using plainText_empty by auto
  with a show g: "generateExcerpt content (Some m) = trimEnd (take (nat m) (plainText content)) @ of_ascii ''...''"
    by (simp add: generateExcerpt_def slice0_def)
  have "length (trimEnd (take (nat m) (plainText content))) \<le> length (take (nat m) (plainText content))"
    by (rule length_trimEnd)
  then show "length (generateExcerpt content (Some m)) \<le> nat m + 3"
    unfolding g by (simp add: of_ascii_def)
  show "trimEnd (take (nat m) (plainText content)) = [] \<or>
       \<not> is_ws (last (trimEnd (take (nat m) (plainText content))))"
    using last_trimEnd by blast
next
  show "generateExcerpt content None = generateExcerpt content (Some 160)"
    by (simp add: generateExcerpt_def)
qed

theorem excerpt_truncation_witness:
  "int (length (plainText (of_ascii ''hello world''))) \<le> 11 \<and>
   generateExcerpt (of_ascii ''hello world'') (Some 11) = of_ascii ''hello world'' \<and>
   (0::int) \<le> 6 \<and> 6 < int (length (plainText (of_ascii ''hello world''))) \<and>
   generateExcerpt (of_ascii ''hello world'') (Some 6) = of_ascii ''hello...'' \<and>
   length (generateExcerpt (of_ascii ''hello world'') (Some 6)) \<le> 6 + 3"
proof -
  have l: "length (of_ascii ''hello world'') = 11" by (simp add: of_ascii_def)
  have t: "trimEnd (take 6 (of_ascii ''hello world'')) = of_ascii ''hello''"
    by (simp add: of_ascii_def trimEnd_def is_ws_def)
  from excerpt_truncation [of "of_ascii ''hello world''" 11]
       excerpt_truncation [of "of_ascii ''hello world''" 6]
  show ?thesis
    by (simp add: plainText_hello l t) (simp add: of_ascii_def)
qed

end
